theory Spec2Isabelle
  imports Main "HOL-Library.Word"
begin

unbundle bit_operations_syntax

section \<open>Machine types, faults and the constants of the absent headers\<close>

text \<open>
  The kernel is x86-64 C: \<open>uint64_t\<close> is a 64-bit word, \<open>int\<close> and \<open>uint\<close> are 32-bit
  words (an \<open>int\<close> is read through \<open>sint\<close>), \<open>short\<close> is a 16-bit word. Arithmetic wraps
  as the hardware does.
\<close>

type_synonym u64 = "64 word"
type_synonym u32 = "32 word"
type_synonym cint = "32 word"
type_synonym short = "16 word"
type_synonym byte = "8 word"

text \<open>
  What stops the kernel instead of returning: a write or read through a null pointer,
  an access through a pointer outside the array it was derived from, a failed
  \<open>assert\<close>/\<open>assertm\<close>, and \<open>panic\<close>.
\<close>

datatype fault = NullDeref | WildPointer | AssertFail | Panic

text \<open>
  \<open>vspace.c\<close> includes its constants from headers that are not part of the sources.
  The page geometry is the one of x86-64 (4 KiB pages, 4-level tables with 9 index
  bits per level); the bits of a page-table entry are the architecture's.
  The user/kernel split \<open>KERNBASE\<close> and the number \<open>VPIPPAGE\<close> of \<open>vpage_info\<close>
  records in one bookkeeping chunk are parameters of the model.
\<close>

record kparams =
  KERNBASE :: u64
  VPIPPAGE :: nat

definition PGSIZE :: u64 where
  "PGSIZE = 4096"


definition PAGE_SHIFT :: nat where
  "PAGE_SHIFT = 12"

definition PGROUNDUP :: "u64 \<Rightarrow> u64" where
  "PGROUNDUP a = (a + PGSIZE - 1) AND NOT (PGSIZE - 1)"

definition PGROUNDDOWN :: "u64 \<Rightarrow> u64" where
  "PGROUNDDOWN a = a AND NOT (PGSIZE - 1)"






definition VPI_PRESENT :: short where
  "VPI_PRESENT = 1"

definition VPI_WRITABLE :: short where
  "VPI_WRITABLE = 1"

definition VPI_READONLY :: short where
  "VPI_READONLY = 0"

definition ELF_MAGIC :: u32 where
  "ELF_MAGIC = 0x464C457F"

definition ELF_PROG_LOAD :: u32 where
  "ELF_PROG_LOAD = 1"

definition ELF_PROG_FLAG_WRITE :: u32 where
  "ELF_PROG_FLAG_WRITE = 2"

definition VR_CODE :: nat where
  "VR_CODE = 0"

definition VR_HEAP :: nat where
  "VR_HEAP = 1"

definition VR_USTACK :: nat where
  "VR_USTACK = 2"

section \<open>Data model\<close>

text \<open>\<open>struct vpage_info\<close>: the bookkeeping record of one logical page.\<close>

record vpage_info =
  used :: short
  ppn :: u64
  present :: short
  writable :: short

definition zero_vpi :: vpage_info where
  "zero_vpi = \<lparr>used = 0, ppn = 0, present = 0, writable = 0\<rparr>"

text \<open>
  \<open>struct vpi_page\<close>: one chunk of \<open>VPIPPAGE\<close> records and a \<open>next\<close> pointer. The chain
  of chunks hanging off \<open>vr->pages\<close> is a list (the empty list is the null pointer);
  the array \<open>infos\<close> is a function on slot numbers, read and written only through
  \<open>vpi_load\<close> and \<open>vpi_store\<close>, which check the slot.
\<close>

record vpi_page =
  infos :: "nat \<Rightarrow> vpage_info"

definition zero_vpi_page :: vpi_page where
  "zero_vpi_page = \<lparr>infos = (\<lambda>_. zero_vpi)\<rparr>"

datatype vrdir = VRDIR_UP | VRDIR_DOWN | VRDIR_OTHER

record vregion =
  dir :: vrdir
  va_base :: u64
  size_vr :: u64
  pages :: "vpi_page list"

text \<open>
  The hardware tree, seen through the primitives that \<open>vspace.c\<close> calls on it: a map
  from logical page numbers to entries (physical page number and permission bits).
  The field \<open>pgtbl\<close> of an address space is a pointer to it; \<open>None\<close> is the null pointer.
\<close>

record pte =
  pte_ppn :: u64
  pte_perm :: cint

type_synonym pgtbl_t = "u64 \<Rightarrow> pte option"

record vspace =
  regions :: "vregion list"
  pgtbl :: "pgtbl_t option"

text \<open>
  Physical memory and its allocator. A page is named by its page number: \<open>PGNUM(V2P(p))\<close>
  and \<open>P2V(n << PT_SHIFT)\<close> translate between the pointer and the number of the same page.
  \<open>mem\<close> holds the bytes of the data pages, by page number and offset in the page.
\<close>

record kmem =
  freelist :: "u64 list"
  mem :: "u64 \<Rightarrow> nat \<Rightarrow> byte"

text \<open>
  Modelled from the spec: the physical page allocator, absent from the sources
  (acquire-one-page returns a sentinel on exhaustion; release-one-page).
\<close>

definition kalloc :: "kmem \<Rightarrow> (u64 \<times> kmem) option" where
  "kalloc st = (case freelist st of [] \<Rightarrow> None | p # ps \<Rightarrow> Some (p, st\<lparr>freelist := ps\<rparr>))"

definition kfree :: "u64 \<Rightarrow> kmem \<Rightarrow> kmem" where
  "kfree p st = st\<lparr>freelist := p # freelist st\<rparr>"

definition memset_page :: "u64 \<Rightarrow> byte \<Rightarrow> kmem \<Rightarrow> kmem" where
  "memset_page p b st = st\<lparr>mem := (mem st)(p := (\<lambda>_. b))\<rparr>"

text \<open>\<open>memmove(P2V(p << PT_SHIFT) + off, data, n)\<close>, the source buffer a function on offsets.\<close>

definition memmove_to :: "u64 \<Rightarrow> nat \<Rightarrow> (nat \<Rightarrow> byte) \<Rightarrow> nat \<Rightarrow> kmem \<Rightarrow> kmem" where
  "memmove_to p off data n st =
     st\<lparr>mem := (mem st)(p := (\<lambda>k. if off \<le> k \<and> k < off + n then data (k - off) else mem st p k))\<rparr>"

section \<open>Page-info store\<close>

definition va2vpi_idx :: "vregion \<Rightarrow> u64 \<Rightarrow> fault + cint" where
  "va2vpi_idx r va =
     (if dir r = VRDIR_UP then Inr (ucast (drop_bit PAGE_SHIFT (va - va_base r)))
      else if dir r = VRDIR_DOWN then Inr (ucast (drop_bit PAGE_SHIFT (va_base r - 1 - va)))
      else Inl Panic)"


text \<open>
  A pointer \<open>&info->infos[idx]\<close>: the position of the chunk in the chain and the slot.
  The slot is the C \<open>int\<close> the code indexes with; the code never checks it against 0.
\<close>

type_synonym vpi_ptr = "nat \<times> int"

definition vpi_load :: "kparams \<Rightarrow> vpi_page list \<Rightarrow> vpi_ptr \<Rightarrow> fault + vpage_info" where
  "vpi_load c ps p =
     (case p of (k, i) \<Rightarrow>
        if k < length ps \<and> 0 \<le> i \<and> i < int (VPIPPAGE c)
        then Inr (infos (ps ! k) (nat i)) else Inl WildPointer)"

definition vpi_store :: "kparams \<Rightarrow> vpi_page list \<Rightarrow> vpi_ptr \<Rightarrow> vpage_info \<Rightarrow> fault + vpi_page list" where
  "vpi_store c ps p v =
     (case p of (k, i) \<Rightarrow>
        if k < length ps \<and> 0 \<le> i \<and> i < int (VPIPPAGE c)
        then Inr (ps[k := (ps ! k)\<lparr>infos := (infos (ps ! k))(nat i := v)\<rparr>])
        else Inl WildPointer)"

text \<open>
  The \<open>while (idx >= VPIPPAGE)\<close> loop of \<open>va2vpage_info\<close>: \<open>info\<close> is the chunk at position
  \<open>k\<close> of the chain. A missing next chunk is allocated and zeroed; when the allocator has
  nothing left the lookup returns the null pointer (\<open>None\<close>).
  The index is the \<open>int\<close> \<open>idx\<close> of the source, compared with \<open>VPIPPAGE\<close> as an \<open>int\<close>.
\<close>

function vpi_walk :: "kparams \<Rightarrow> vpi_page list \<Rightarrow> nat \<Rightarrow> int \<Rightarrow> kmem \<Rightarrow> vpi_ptr option \<times> vpi_page list \<times> kmem" where
  "vpi_walk c ps k idx st =
     (if idx \<ge> int (VPIPPAGE c) then
        (if Suc k < length ps then vpi_walk c ps (Suc k) (idx - int (VPIPPAGE c)) st
         else
           (case kalloc st of
              None \<Rightarrow> (None, ps, st)
            | Some (p, st1) \<Rightarrow> vpi_walk c (ps @ [zero_vpi_page]) (Suc k) (idx - int (VPIPPAGE c)) st1))
      else (Some (k, idx), ps, st))"
  by pat_completeness auto
termination
  by (relation "measures [\<lambda>(c, ps, k, idx, st). length (freelist st), \<lambda>(c, ps, k, idx, st). length ps - k]")
     (auto simp: kalloc_def split: list.splits)

definition va2vpage_info :: "kparams \<Rightarrow> vregion \<Rightarrow> u64 \<Rightarrow> kmem \<Rightarrow> fault + (vpi_ptr option \<times> vregion \<times> kmem)" where
  "va2vpage_info c vr va st =
     (case (if pages vr = [] then
              (case kalloc st of
                 None \<Rightarrow> Inl NullDeref
               | Some (p, st1) \<Rightarrow> Inr ([zero_vpi_page], st1))
            else Inr (pages vr, st)) of
        Inl f \<Rightarrow> Inl f
      | Inr (ps, st1) \<Rightarrow>
          (case va2vpi_idx vr va of
             Inl f \<Rightarrow> Inl f
           | Inr idx \<Rightarrow>
               (case vpi_walk c ps 0 (sint idx) st1 of
                  (r, ps', st2) \<Rightarrow> Inr (r, vr\<lparr>pages := ps'\<rparr>, st2))))"

section \<open>Region queries and mapping\<close>

text \<open>
  Modelled from the spec: the macros \<open>VRBOT\<close> and \<open>VRTOP\<close> of the absent \<open>vspace.h\<close>; the
  extent of a region is \<open>[base, base+size)\<close> when it grows up and \<open>[base-size, base)\<close>
  otherwise, as in \<open>va2vregion\<close>.
\<close>

definition VRTOP :: "vregion \<Rightarrow> u64" where
  "VRTOP r = (if dir r = VRDIR_UP then va_base r + size_vr r else va_base r)"

definition VRBOT :: "vregion \<Rightarrow> u64" where
  "VRBOT r = (if dir r = VRDIR_UP then va_base r else va_base r - size_vr r)"

fun va2vregion_loop :: "vregion list \<Rightarrow> nat \<Rightarrow> u64 \<Rightarrow> nat option" where
  "va2vregion_loop [] i va = None"
| "va2vregion_loop (vr # vrs) i va =
     (if dir vr = VRDIR_UP then
        (if va \<ge> va_base vr \<and> va < va_base vr + size_vr vr then Some i
         else va2vregion_loop vrs (Suc i) va)
      else
        (if va \<ge> va_base vr - size_vr vr \<and> va < va_base vr then Some i
         else va2vregion_loop vrs (Suc i) va))"

text \<open>The region is returned as its index in \<open>vs->regions\<close>; \<open>None\<close> is the null pointer.\<close>

definition va2vregion :: "vspace \<Rightarrow> u64 \<Rightarrow> nat option" where
  "va2vregion vs va = va2vregion_loop (regions vs) 0 va"

definition vregioncontains :: "vregion \<Rightarrow> u64 \<Rightarrow> cint \<Rightarrow> cint" where
  "vregioncontains vr va sz =
     (if sz = 0 \<and> va = VRTOP vr then 0
      else if va \<ge> VRBOT vr \<and> va + scast sz \<le> VRTOP vr then 1 else 0)"

text \<open>
  The loop after the label \<open>addmap_failure\<close>; \<open>a\<close> has already been decremented once.
  The comparison \<open>a >= PGROUNDUP(from_va)\<close> is unsigned and \<open>a -= PGSIZE\<close> wraps.
\<close>

partial_function (option) addmap_failure ::
  "kparams \<Rightarrow> u64 \<Rightarrow> u64 \<Rightarrow> vregion \<Rightarrow> kmem \<Rightarrow> (fault + (cint \<times> vregion \<times> kmem)) option" where
  "addmap_failure c from_va a vr st =
     (if a \<ge> PGROUNDUP from_va then
        (case va2vpage_info c vr a st of
           Inl f \<Rightarrow> Some (Inl f)
         | Inr (None, vr1, st1) \<Rightarrow> Some (Inl AssertFail)
         | Inr (Some p, vr1, st1) \<Rightarrow>
             (case vpi_load c (pages vr1) p of
                Inl f \<Rightarrow> Some (Inl f)
              | Inr vpi \<Rightarrow>
                  (case vpi_store c (pages vr1) p
                          (vpi\<lparr>used := 0, present := 0, writable := 0, ppn := 0\<rparr>) of
                     Inl f \<Rightarrow> Some (Inl f)
                   | Inr ps \<Rightarrow>
                       addmap_failure c from_va (a - PGSIZE) (vr1\<lparr>pages := ps\<rparr>)
                         (kfree (ppn vpi) st1))))
      else Some (Inr (- 1, vr, st)))"

text \<open>The allocation loop of \<open>vregionaddmap\<close>, from the current \<open>a\<close>.\<close>

partial_function (option) addmap_loop ::
  "kparams \<Rightarrow> u64 \<Rightarrow> u64 \<Rightarrow> short \<Rightarrow> short \<Rightarrow> u64 \<Rightarrow> vregion \<Rightarrow> kmem
     \<Rightarrow> (fault + (cint \<times> vregion \<times> kmem)) option" where
  "addmap_loop c from_va sz prs wr a vr st =
     (if a < from_va + sz then
        (case va2vpage_info c vr a st of
           Inl f \<Rightarrow> Some (Inl f)
         | Inr (None, vr1, st1) \<Rightarrow> addmap_failure c from_va (a - PGSIZE) vr1 st1
         | Inr (Some p, vr1, st1) \<Rightarrow>
             (case vpi_load c (pages vr1) p of
                Inl f \<Rightarrow> Some (Inl f)
              | Inr vpi \<Rightarrow>
                  if used vpi \<noteq> 0 then Some (Inl AssertFail)
                  else
                    (case kalloc st1 of
                       None \<Rightarrow> addmap_failure c from_va (a - PGSIZE) vr1 st1
                     | Some (m, st2) \<Rightarrow>
                         (case vpi_store c (pages vr1) p
                                 (vpi\<lparr>used := 1, present := prs, writable := wr, ppn := m\<rparr>) of
                            Inl f \<Rightarrow> Some (Inl f)
                          | Inr ps \<Rightarrow>
                              addmap_loop c from_va sz prs wr (a + PGSIZE) (vr1\<lparr>pages := ps\<rparr>)
                                (memset_page m 0 st2)))))
      else Some (Inr (ucast sz, vr, st)))"

text \<open>
  \<open>vregionaddmap\<close> returns an \<open>int\<close>: \<open>return sz\<close> keeps the low 32 bits of \<open>sz\<close>.
  The result is the returned value, the region and the allocator state.
\<close>

definition vregionaddmap ::
  "kparams \<Rightarrow> vregion \<Rightarrow> u64 \<Rightarrow> u64 \<Rightarrow> short \<Rightarrow> short \<Rightarrow> kmem
     \<Rightarrow> (fault + (cint \<times> vregion \<times> kmem)) option" where
  "vregionaddmap c vr from_va sz prs wr st =
     (if sz + from_va \<ge> KERNBASE c then Some (Inr (- 1, vr, st))
      else if sz \<le> 0 then Some (Inr (0, vr, st))
      else addmap_loop c from_va sz prs wr (PGROUNDUP from_va) vr st)"

text \<open>
  The record the bookkeeping holds for the page of \<open>va\<close>, read without allocating: an
  absent chunk reads as cleared records. \<open>vpi_index\<close> is the C \<open>int\<close> index of the page.
\<close>

definition vpi_index :: "vregion \<Rightarrow> u64 \<Rightarrow> int" where
  "vpi_index r va = (case va2vpi_idx r va of Inl f \<Rightarrow> - 1 | Inr idx \<Rightarrow> sint idx)"

definition vpi_at :: "kparams \<Rightarrow> vpi_page list \<Rightarrow> int \<Rightarrow> vpage_info" where
  "vpi_at c ps idx =
     (if 0 \<le> idx \<and> 0 < VPIPPAGE c \<and> nat idx div VPIPPAGE c < length ps
      then infos (ps ! (nat idx div VPIPPAGE c)) (nat idx mod VPIPPAGE c)
      else zero_vpi)"

section \<open>Address-space set-up\<close>

text \<open>
  \<open>vspaceinit\<close>. The argument \<open>kvm\<close> is what \<open>setupkvm()\<close> returns (\<open>None\<close> for the null
  pointer); it is stored in \<open>vs->pgtbl\<close> before it is tested.
  \<open>memset(vr, 0, sizeof(struct vregion))\<close> leaves the first enumerator \<open>VRDIR_UP\<close>, base 0,
  size 0 and no chunk.
\<close>

definition zero_vregion :: vregion where
  "zero_vregion = \<lparr>dir = VRDIR_UP, va_base = 0, size_vr = 0, pages = []\<rparr>"

definition vspaceinit :: "pgtbl_t option \<Rightarrow> vspace \<Rightarrow> cint \<times> vspace" where
  "vspaceinit kvm vs =
     (case kvm of
        None \<Rightarrow> (- 1, vs\<lparr>pgtbl := None\<rparr>)
      | Some pg \<Rightarrow>
          (let rs = map (\<lambda>_. zero_vregion) (regions vs);
               rs = rs[VR_CODE := (rs ! VR_CODE)\<lparr>dir := VRDIR_UP\<rparr>];
               rs = rs[VR_HEAP := (rs ! VR_HEAP)\<lparr>dir := VRDIR_UP\<rparr>];
               rs = rs[VR_USTACK := (rs ! VR_USTACK)\<lparr>dir := VRDIR_DOWN\<rparr>]
           in (0, \<lparr>regions = rs, pgtbl = Some pg\<rparr>)))"

section \<open>Hardware synchronizer\<close>







section \<open>Binary loader\<close>

text \<open>
  The file system is outside \<open>vspace.c\<close>. An inode is seen through what the loader reads
  from it: the ELF header that \<open>readi(ip, &elf, 0, sizeof(elf))\<close> delivers (\<open>None\<close> when
  the read is short), the program header that the \<open>i\<close>-th read at
  \<open>elf.phoff + i * sizeof(ph)\<close> delivers (\<open>None\<close> past the last one), and the bytes of the
  file for the reads of segment data.
\<close>

record elfhdr =
  magic :: u32
  entry :: u64
  phnum :: "16 word"

record proghdr =
  type_ph :: u32
  flags :: u32
  off :: u64
  vaddr :: u64
  filesz :: u64
  memsz :: u64

record inode =
  elf_hdr :: "elfhdr option"
  prog_hdrs :: "proghdr list"
  isize :: nat
  idata :: "nat \<Rightarrow> byte"

text \<open>
  Modelled from the spec: \<open>readi\<close> of the absent file system, a random-access read of
  \<open>n\<close> bytes at offset \<open>off\<close> into the page \<open>p\<close>, returning the number of bytes read
  (-1 for an offset past the end of the file).
\<close>

definition readi :: "inode \<Rightarrow> u64 \<Rightarrow> u32 \<Rightarrow> u32 \<Rightarrow> kmem \<Rightarrow> int \<times> kmem" where
  "readi ip p offset n st =
     (if isize ip < unat offset then (- 1, st)
      else
        (let m = min (unat n) (isize ip - unat offset)
         in (int m, memmove_to p 0 (\<lambda>k. idata ip (unat offset + k)) m st)))"

partial_function (option) vrloaddata_loop ::
  "kparams \<Rightarrow> u64 \<Rightarrow> inode \<Rightarrow> u32 \<Rightarrow> u32 \<Rightarrow> u32 \<Rightarrow> vregion \<Rightarrow> kmem
     \<Rightarrow> (fault + (cint \<times> vregion \<times> kmem)) option" where
  "vrloaddata_loop c va ip offset sz i r st =
     (if i < sz then
        (case va2vpage_info c r (va + ucast i) st of
           Inl f \<Rightarrow> Some (Inl f)
         | Inr (None, r1, st1) \<Rightarrow> Some (Inl NullDeref)
         | Inr (Some p, r1, st1) \<Rightarrow>
             (case vpi_load c (pages r1) p of
                Inl f \<Rightarrow> Some (Inl f)
              | Inr vpi \<Rightarrow>
                  if used vpi = 0 then Some (Inl AssertFail)
                  else
                    (case readi ip (ppn vpi) (offset + i) (min (sz - i) (ucast PGSIZE)) st1 of
                       (cnt, st2) \<Rightarrow>
                         if cnt \<noteq> int (unat (min (sz - i) (ucast PGSIZE :: u32)))
                         then Some (Inr (- 1, r1, st2))
                         else vrloaddata_loop c va ip offset sz (i + ucast PGSIZE) r1 st2)))
      else Some (Inr (0, r, st)))"

definition vrloaddata ::
  "kparams \<Rightarrow> vregion \<Rightarrow> u64 \<Rightarrow> inode \<Rightarrow> u32 \<Rightarrow> u32 \<Rightarrow> kmem
     \<Rightarrow> (fault + (cint \<times> vregion \<times> kmem)) option" where
  "vrloaddata c r va ip offset sz st =
     (if va mod PGSIZE \<noteq> 0 then Some (Inl AssertFail)
      else vrloaddata_loop c va ip offset sz 0 r st)"

text \<open>
  The loop of \<open>vspaceloadcode\<close> over the program headers. The result carries whether the
  loop ran to its end (\<open>False\<close>: a jump to \<open>elf_failure\<close>) and the locals \<open>first_section\<close>,
  \<open>sz\<close> and \<open>code_end\<close>. \<open>ph.off\<close> and \<open>ph.filesz\<close> are passed to \<open>uint\<close> parameters.
\<close>

function loadcode_loop ::
  "kparams \<Rightarrow> inode \<Rightarrow> elfhdr \<Rightarrow> nat \<Rightarrow> bool \<Rightarrow> cint \<Rightarrow> u64 \<Rightarrow> vspace \<Rightarrow> kmem
     \<Rightarrow> (fault + (bool \<times> bool \<times> cint \<times> u64 \<times> vspace \<times> kmem)) option" where
  "loadcode_loop c ip elf i first sz code_end vs st =
     (if i < unat (phnum elf) then
        (case (if i < length (prog_hdrs ip) then Some (prog_hdrs ip ! i) else None) of
           None \<Rightarrow> Some (Inr (False, first, sz, code_end, vs, st))
         | Some ph \<Rightarrow>
             if type_ph ph \<noteq> ELF_PROG_LOAD then loadcode_loop c ip elf (Suc i) first sz code_end vs st
             else if memsz ph < filesz ph then Some (Inr (False, first, sz, code_end, vs, st))
             else if vaddr ph + memsz ph < vaddr ph then Some (Inr (False, first, sz, code_end, vs, st))
             else
               (let vs1 = (if first
                           then vs\<lparr>regions := (regions vs)
                                  [VR_CODE := (regions vs ! VR_CODE)\<lparr>va_base := PGROUNDDOWN (vaddr ph)\<rparr>]\<rparr>
                           else vs)
                in
                  (case vregionaddmap c (regions vs1 ! VR_CODE) (vaddr ph) (memsz ph) VPI_PRESENT
                          (if flags ph AND ELF_PROG_FLAG_WRITE \<noteq> 0 then VPI_WRITABLE else VPI_READONLY) st of
                     None \<Rightarrow> None
                   | Some (Inl f) \<Rightarrow> Some (Inl f)
                   | Some (Inr (sz1, vr1, st1)) \<Rightarrow>
                       (let vs2 = vs1\<lparr>regions := (regions vs1)[VR_CODE := vr1]\<rparr> in
                          if sz1 <s 0 then Some (Inr (False, False, sz1, code_end, vs2, st1))
                          else if vaddr ph mod PGSIZE \<noteq> 0
                          then Some (Inr (False, False, sz1, code_end, vs2, st1))
                          else
                            (case vrloaddata c vr1 (vaddr ph) ip (ucast (off ph)) (ucast (filesz ph)) st1 of
                               None \<Rightarrow> None
                             | Some (Inl f) \<Rightarrow> Some (Inl f)
                             | Some (Inr (r, vr2, st2)) \<Rightarrow>
                                 (let vs3 = vs2\<lparr>regions := (regions vs2)[VR_CODE := vr2]\<rparr> in
                                    if r <s 0
                                    then Some (Inr (False, False, sz1, vaddr ph + memsz ph, vs3, st2))
                                    else loadcode_loop c ip elf (Suc i) False sz1
                                           (vaddr ph + memsz ph) vs3 st2))))))
      else Some (Inr (True, first, sz, code_end, vs, st)))"
  by pat_completeness auto
termination
  by (relation "measure (\<lambda>(c, ip, elf, i, first, sz, code_end, vs, st). unat (phnum elf) - i)") auto

text \<open>
  \<open>vspaceloadcode\<close>. \<open>namei\<close> is the lookup of the absent file system. The result is the
  returned \<open>int\<close>, the value of \<open>*rip\<close>, the address space and the allocator state.
  The local \<open>sz\<close> has no initial value in the source; it is read only after
  \<open>assert(!first_section)\<close>, when a call of \<open>vregionaddmap\<close> has assigned it.
\<close>

definition vspaceloadcode ::
  "kparams \<Rightarrow> (string \<Rightarrow> inode option) \<Rightarrow> vspace \<Rightarrow> string \<Rightarrow> u64 \<Rightarrow> kmem
     \<Rightarrow> (fault + (cint \<times> u64 \<times> vspace \<times> kmem)) option" where
  "vspaceloadcode c namei vs path rip st =
     (case namei path of
        None \<Rightarrow> Some (Inr (0, rip, vs, st))
      | Some ip \<Rightarrow>
          (case elf_hdr ip of
             None \<Rightarrow> Some (Inr (0, rip, vs, st))
           | Some elf \<Rightarrow>
               if magic elf \<noteq> ELF_MAGIC then Some (Inr (0, rip, vs, st))
               else
                 (case loadcode_loop c ip elf 0 True 0 0 vs st of
                    None \<Rightarrow> None
                  | Some (Inl f) \<Rightarrow> Some (Inl f)
                  | Some (Inr (ok, first, sz, code_end, vs1, st1)) \<Rightarrow>
                      if \<not> ok then Some (Inr (0, rip, vs1, st1))
                      else if first then Some (Inl AssertFail)
                      else
                        (let code = regions vs1 ! VR_CODE;
                             rs = (regions vs1)
                                    [VR_CODE := code\<lparr>size_vr := code_end - va_base code\<rparr>];
                             rs = rs[VR_HEAP := (rs ! VR_HEAP)\<lparr>va_base := PGROUNDUP code_end + PGSIZE\<rparr>];
                             rs = rs[VR_HEAP := (rs ! VR_HEAP)\<lparr>size_vr := 0\<rparr>]
                         in Some (Inr (sz, entry elf, vs1\<lparr>regions := rs\<rparr>, st1))))))"

section \<open>Duplication\<close>





section \<open>Writing into a user address space\<close>

text \<open>
  The \<open>while (va < end)\<close> loop of \<open>vspacewritetova\<close>. \<open>data\<close> is the caller's buffer from
  the current position on. \<open>writetova_wsz\<close> is the value of \<open>wsz\<close>: \<open>min\<close> compares two
  \<open>int\<close>s and its result is stored in a \<open>uint64_t\<close>.
\<close>

definition writetova_wsz :: "u64 \<Rightarrow> cint \<Rightarrow> u64" where
  "writetova_wsz va sz =
     scast (if (ucast (PGROUNDUP va - va) :: cint) <s sz then ucast (PGROUNDUP va - va) else sz)"

partial_function (option) writetova_loop ::
  "kparams \<Rightarrow> u64 \<Rightarrow> u64 \<Rightarrow> (nat \<Rightarrow> byte) \<Rightarrow> cint \<Rightarrow> vspace \<Rightarrow> kmem
     \<Rightarrow> (fault + (cint \<times> vspace \<times> kmem)) option" where
  "writetova_loop c va vtop data sz vs st =
     (if va < vtop then
        (case va2vregion vs va of
           None \<Rightarrow> Some (Inr (- 1, vs, st))
         | Some n \<Rightarrow>
             (case va2vpage_info c (regions vs ! n) va st of
                Inl f \<Rightarrow> Some (Inl f)
              | Inr (None, vr1, st1) \<Rightarrow> Some (Inl NullDeref)
              | Inr (Some p, vr1, st1) \<Rightarrow>
                  (case vpi_load c (pages vr1) p of
                     Inl f \<Rightarrow> Some (Inl f)
                   | Inr vpi \<Rightarrow>
                       if used vpi = 0 then Some (Inl AssertFail)
                       else if writable vpi = 0
                       then Some (Inr (- 1, vs\<lparr>regions := (regions vs)[n := vr1]\<rparr>, st1))
                       else
                         writetova_loop c (va + writetova_wsz va sz) vtop
                           (\<lambda>k. data (k + unat (writetova_wsz va sz)))
                           (sz - ucast (writetova_wsz va sz))
                           (vs\<lparr>regions := (regions vs)[n := vr1]\<rparr>)
                           (memmove_to (ppn vpi) (unat (va mod PGSIZE)) data
                              (unat (writetova_wsz va sz)) st1))))
      else Some (Inr (0, vs, st)))"

definition vspacewritetova ::
  "kparams \<Rightarrow> vspace \<Rightarrow> u64 \<Rightarrow> (nat \<Rightarrow> byte) \<Rightarrow> cint \<Rightarrow> kmem
     \<Rightarrow> (fault + (cint \<times> vspace \<times> kmem)) option" where
  "vspacewritetova c vs va data sz st =
     (if \<not> 0 <s sz then Some (Inl AssertFail)
      else if \<not> va + scast sz < KERNBASE c then Some (Inl AssertFail)
      else writetova_loop c va (va + scast sz) data sz vs st)"

section \<open>Example configurations\<close>

text \<open>
  Concrete inputs on which the theorems below are instantiated: the split address of
  the x86-64 kernel layout with 169 records per chunk, the state of a region right
  after \<open>vspaceinit\<close>, a code region whose second page \<open>0x11000\<close> is already mapped,
  an address space with that code region, and allocators holding a few free pages.
\<close>

definition params0 :: kparams where
  "params0 = \<lparr>KERNBASE = 0xFFFFFFFF80000000, VPIPPAGE = 169\<rparr>"

definition region0 :: vregion where
  "region0 = \<lparr>dir = VRDIR_UP, va_base = 0, size_vr = 0, pages = []\<rparr>"

definition stack0 :: vregion where
  "stack0 = \<lparr>dir = VRDIR_DOWN, va_base = 0x3000, size_vr = 0x2000, pages = []\<rparr>"

definition code0 :: vregion where
  "code0 = \<lparr>dir = VRDIR_UP, va_base = 0x1000, size_vr = 0x1000, pages = []\<rparr>"

definition code1 :: vregion where
  "code1 = \<lparr>dir = VRDIR_UP, va_base = 0x10000, size_vr = 0, pages = [zero_vpi_page]\<rparr>"

definition code3 :: vregion where
  "code3 = \<lparr>dir = VRDIR_UP, va_base = 0x10000, size_vr = 0x2000,
     pages = [\<lparr>infos = (\<lambda>_. zero_vpi)(1 := \<lparr>used = 1, ppn = 9, present = 1, writable = 1\<rparr>)\<rparr>]\<rparr>"

definition vspace3 :: vspace where
  "vspace3 = \<lparr>regions = [code3, region0, stack0], pgtbl = Some (\<lambda>_. None)\<rparr>"







definition kmem_of :: "u64 list \<Rightarrow> kmem" where
  "kmem_of ps = \<lparr>freelist = ps, mem = (\<lambda>_ _. 0)\<rparr>"

text \<open>
  The two-segment image of the loader scenario: segment A at \<open>0x10000\<close> (file size
  \<open>0x100\<close>, memory size \<open>0x1000\<close>, read and execute), segment B at \<open>0x11000\<close> (file and
  memory size \<open>0x50\<close>, read and write), in a file of two pages; an address space of
  three regions fresh from \<open>vspaceinit\<close>.
\<close>

definition segA :: proghdr where
  "segA = \<lparr>type_ph = ELF_PROG_LOAD, flags = 5, off = 0x1000, vaddr = 0x10000,
            filesz = 0x100, memsz = 0x1000\<rparr>"

definition segB :: proghdr where
  "segB = \<lparr>type_ph = ELF_PROG_LOAD, flags = 6, off = 0x1100, vaddr = 0x11000,
            filesz = 0x50, memsz = 0x50\<rparr>"

definition image0 :: inode where
  "image0 = \<lparr>elf_hdr = Some \<lparr>magic = ELF_MAGIC, entry = 0x10000, phnum = 2\<rparr>,
              prog_hdrs = [segA, segB], isize = 0x2000, idata = (\<lambda>_. 0x90)\<rparr>"

definition vspace0 :: vspace where
  "vspace0 = snd (vspaceinit (Some Map.empty)
                    \<lparr>regions = [zero_vregion, zero_vregion, zero_vregion], pgtbl = None\<rparr>)"

section \<open>Word arithmetic\<close>

lemma unat_scast_pos:
  assumes "0 <s (sz :: 32 word)"
  shows "unat (scast sz :: 64 word) = nat (sint sz)"
proof -
  have p: "0 < sint sz" using assms by (simp add: word_sless_alt)
  have b: "sint sz < 2 ^ 31" using sint_lt[of sz] by simp
  have "uint (scast sz :: 64 word) = sint sz mod 2 ^ LENGTH(64)"
    unfolding scast_eq by (rule uint_word_of_int)
  also have "\<dots> = sint sz" using p b by simp
  finally show ?thesis by (simp only: unat_eq_nat_uint)
qed

lemma unat_add_scast:
  assumes "0 <s (sz :: 32 word)" "unat (va :: 64 word) + nat (sint sz) < 2 ^ 64"
  shows "unat (va + scast sz) = unat va + nat (sint sz)"
proof -
  have "unat va + unat (scast sz :: 64 word) < 2 ^ LENGTH(64)"
    using assms by (simp add: unat_scast_pos)
  then have "unat (va + scast sz) = unat va + unat (scast sz :: 64 word)"
    by (simp only: unat_add_lem)
  then show ?thesis using assms(1) by (simp add: unat_scast_pos)
qed

section \<open>Region containment (C9)\<close>

text \<open>
  Where the code is right: \<open>vregioncontains(r, va, 0)\<close> is false at the top address of
  the region and true at every address of \<open>[VRBOT, VRTOP)\<close>; for a positive size whose
  sum \<open>va + size\<close> stays below \<open>2^64\<close> it returns true exactly when \<open>VRBOT \<le> va\<close> and
  \<open>va + size \<le> VRTOP\<close>.
\<close>

lemma vregioncontains_no_wrap:
  "vregioncontains r (VRTOP r) 0 = 0
   \<and> (VRBOT r \<le> va \<and> va < VRTOP r \<longrightarrow> vregioncontains r va 0 = 1)
   \<and> (0 <s sz \<and> unat va + nat (sint sz) < 2 ^ 64 \<longrightarrow>
        vregioncontains r va sz =
          (if unat (VRBOT r) \<le> unat va \<and> unat va + nat (sint sz) \<le> unat (VRTOP r)
           then 1 else 0))"
proof (intro conjI impI)
  show "vregioncontains r (VRTOP r) 0 = 0"
    by (simp add: vregioncontains_def)
next
  assume "VRBOT r \<le> va \<and> va < VRTOP r"
  then show "vregioncontains r va 0 = 1"
    by (auto simp: vregioncontains_def)
next
  assume a: "0 <s sz \<and> unat va + nat (sint sz) < 2 ^ 64"
  then have nz: "sz \<noteq> 0" by auto
  have e: "unat (va + scast sz) = unat va + nat (sint sz)"
    using a by (simp add: unat_add_scast)
  show "vregioncontains r va sz =
          (if unat (VRBOT r) \<le> unat va \<and> unat va + nat (sint sz) \<le> unat (VRTOP r)
           then 1 else 0)"
    using nz e by (simp add: vregioncontains_def word_le_nat_alt)
qed

text \<open>
  On a stack region \<open>[0x1000, 0x3000)\<close>: the top is outside, an inner address is inside,
  \<open>[0x1800, 0x3000)\<close> is contained and \<open>[0x1800, 0x3001)\<close> is not.
\<close>

lemma vregioncontains_no_wrap_example:
  "vregioncontains stack0 0x3000 0 = 0
   \<and> vregioncontains stack0 0x1800 0 = 1
   \<and> vregioncontains stack0 0x1800 0x1800 = 1
   \<and> vregioncontains stack0 0x1800 0x1801 = 0"
  using vregioncontains_no_wrap[of stack0 "0x1800" "0x1800"]
        vregioncontains_no_wrap[of stack0 "0x1800" "0x1801"]
  by (simp add: stack0_def VRTOP_def VRBOT_def word_sless_alt)

text \<open>
  C9 at its failing input. The claim: \<open>vregioncontains(r, va, 0)\<close> is false at the top of
  the region and true strictly inside, and for a positive size the function returns
  true iff \<open>[va, va + size)\<close> lies fully within the extent of the region. The code adds
  \<open>va + size\<close> in 64 bits and does not test for overflow: for the region
  \<open>[0x1000, 0x2000)\<close> and the one-byte range at \<open>2^64 - 1\<close>, which lies above the top of
  the region, the sum wraps to 0 and the function returns true.
\<close>

theorem vregioncontains_wrapped_sum:
  "vregioncontains code0 0xFFFFFFFFFFFFFFFF 1 = 1
   \<and> VRTOP code0 < 0xFFFFFFFFFFFFFFFF"
  by (simp add: vregioncontains_def code0_def VRTOP_def VRBOT_def)

section \<open>The guards of vregionaddmap (C4)\<close>

text \<open>
  C4, as the code has it. The boundary test comes first and is made on the 64-bit sum
  \<open>sz + from_va\<close>: when that sum reaches \<open>KERNBASE\<close> the call returns -1 and neither the
  region nor the allocator changes. A call with \<open>sz = 0\<close> (the only \<open>uint64_t\<close> that is
  \<open>\<le> 0\<close>) that passes the boundary test returns 0 and changes nothing.
\<close>

theorem vregionaddmap_guards:
  "(KERNBASE c \<le> sz + from_va \<longrightarrow>
      vregionaddmap c vr from_va sz prs wr st = Some (Inr (- 1, vr, st)))
   \<and> (sz \<le> 0 \<and> from_va < KERNBASE c \<longrightarrow>
      vregionaddmap c vr from_va sz prs wr st = Some (Inr (0, vr, st)))"
  by (auto simp: vregionaddmap_def)

theorem vregionaddmap_guards_witness:
  "vregionaddmap params0 region0 0xFFFFFFFF7FFFF000 0x1000 1 1 (kmem_of [5, 6])
     = Some (Inr (- 1, region0, kmem_of [5, 6]))
   \<and> vregionaddmap params0 region0 0x10000 0 1 1 (kmem_of [5, 6])
     = Some (Inr (0, region0, kmem_of [5, 6]))"
  using vregionaddmap_guards[of params0 "0x1000" "0xFFFFFFFF7FFFF000" region0 1 1 "kmem_of [5, 6]"]
        vregionaddmap_guards[of params0 0 "0x10000" region0 1 1 "kmem_of [5, 6]"]
  by (simp add: params0_def)

text \<open>
  A call with \<open>sz = 0\<close> at \<open>from_va = KERNBASE\<close> is rejected by the boundary test: it
  returns -1, not 0.
\<close>

theorem vregionaddmap_zero_size_counterexample:
  "vregionaddmap params0 region0 0xFFFFFFFF80000000 0 1 1 (kmem_of [5, 6])
     = Some (Inr (- 1, region0, kmem_of [5, 6]))"
  by (simp add: vregionaddmap_def params0_def)

section \<open>Allocation failure in the page-info lookup (C7)\<close>

text \<open>
  C7 at its failing input. With no chunk yet (\<open>vr->pages\<close> null) and an exhausted
  allocator, \<open>va2vpage_info\<close> passes the null result of \<open>kalloc\<close> to \<open>memset\<close>: the kernel
  stops on the null pointer instead of reporting the failure. The allocation of a
  later chunk is checked: with one chunk present and the page in the second chunk, the
  same exhausted allocator makes the lookup return the null pointer.
\<close>

theorem va2vpage_info_first_chunk_unchecked:
  "va2vpage_info params0 (code1\<lparr>pages := []\<rparr>) 0x10000 (kmem_of []) = Inl NullDeref
   \<and> va2vpage_info params0 code1 0xB9000 (kmem_of []) = Inr (None, code1, kmem_of [])"
  by (simp add: va2vpage_info_def kalloc_def va2vpi_idx_def PAGE_SHIFT_def
        params0_def code1_def kmem_of_def)

section \<open>Rollback of vregionaddmap (C2)\<close>

text \<open>
  C2 at its failing input. The region starts at address 0 and the call maps
  \<open>[0, 0x2000)\<close> with two free pages: the first page of the range is mapped (one page
  for the chunk, one for the data), the allocation for the second fails. The rollback
  loop unmaps the page at 0, decrements \<open>a\<close> below 0, and since \<open>a >= PGROUNDUP(from_va)\<close>
  is an unsigned comparison with 0 it goes on at \<open>2^64 - 4096\<close>, whose index is -1:
  the call reads the record before the first chunk instead of returning -1.
\<close>

theorem vregionaddmap_rollback_underflow:
  "vregionaddmap params0 region0 0 0x2000 1 1 (kmem_of [5, 6]) = Some (Inl WildPointer)"
  apply (simp add: vregionaddmap_def PGROUNDUP_def PGSIZE_def params0_def region0_def kmem_of_def)
  apply (simp add: addmap_loop.simps addmap_failure.simps va2vpage_info_def kalloc_def kfree_def
      va2vpi_idx_def PAGE_SHIFT_def vpi_load_def vpi_store_def zero_vpi_page_def zero_vpi_def
      memset_page_def PGROUNDUP_def PGSIZE_def)
  done

section \<open>The page-info store: walking, reading and writing records\<close>

declare vpi_walk.simps [simp del]

lemma kalloc_Some:
  "kalloc st = Some (p, st1) \<Longrightarrow> freelist st = p # freelist st1 \<and> mem st1 = mem st"
  by (auto simp: kalloc_def split: list.splits)

lemma vpi_walk_spec:
  "vpi_walk c ps k idx st = (r, ps', st') \<Longrightarrow>
     (\<exists>n tk. ps' = ps @ replicate n zero_vpi_page \<and> freelist st = tk @ freelist st') \<and> mem st' = mem st
   \<and> (\<forall>k' i. r = Some (k', i) \<longrightarrow> i < int (VPIPPAGE c) \<and> (k < length ps \<longrightarrow> k' < length ps') \<and>
        (if 0 \<le> idx then 0 \<le> i \<and> int k' * int (VPIPPAGE c) + i = int k * int (VPIPPAGE c) + idx
         else k' = k \<and> i = idx))"
proof (induction c ps k idx st arbitrary: r ps' st' rule: vpi_walk.induct)
  case (1 c ps k idx st)
  show ?case
  proof (cases "idx \<ge> int (VPIPPAGE c)")
    case False
    with "1.prems" have "r = Some (k, idx)" "ps' = ps" "st' = st"
      by (simp_all add: vpi_walk.simps[of c ps k idx st])
    with False show ?thesis by auto
  next
    case ge: True
    show ?thesis
    proof (cases "Suc k < length ps")
      case True
      with ge "1.prems" have w: "vpi_walk c ps (Suc k) (idx - int (VPIPPAGE c)) st = (r, ps', st')"
        by (simp add: vpi_walk.simps[of c ps k idx st])
      from "1.IH"(1)[OF ge True w] ge True show ?thesis
        by (auto simp: algebra_simps split: if_splits)
    next
      case False
      show ?thesis
      proof (cases "kalloc st")
        case None
        with ge False "1.prems" have "r = None" "ps' = ps" "st' = st"
          by (simp_all add: vpi_walk.simps[of c ps k idx st])
        then show ?thesis by auto
      next
        case (Some a)
        obtain p st1 where a: "a = (p, st1)" by (cases a)
        with Some ge False "1.prems"
        have w: "vpi_walk c (ps @ [zero_vpi_page]) (Suc k) (idx - int (VPIPPAGE c)) st1 = (r, ps', st')"
          by (simp add: vpi_walk.simps[of c ps k idx st])
        from Some a have k: "freelist st = p # freelist st1" "mem st1 = mem st"
          by (auto dest: kalloc_Some)
        from "1.IH"(2)[OF ge False Some a[symmetric] w]
        obtain n tk where e: "ps' = (ps @ [zero_vpi_page]) @ replicate n zero_vpi_page"
            "freelist st1 = tk @ freelist st'" "mem st' = mem st1"
          and r: "\<forall>k' i. r = Some (k', i) \<longrightarrow> i < int (VPIPPAGE c) \<and>
              (Suc k < length (ps @ [zero_vpi_page]) \<longrightarrow> k' < length ps') \<and>
              (if 0 \<le> idx - int (VPIPPAGE c) then 0 \<le> i \<and> int k' * int (VPIPPAGE c) + i = int (Suc k) * int (VPIPPAGE c) + (idx - int (VPIPPAGE c))
               else k' = Suc k \<and> i = idx - int (VPIPPAGE c))"
          by blast
        have e1: "ps' = ps @ replicate (Suc n) zero_vpi_page"
          using e(1) by (simp add: replicate_app_Cons_same)
        have e2: "freelist st = (p # tk) @ freelist st'" using k e(2) by simp
        have e3: "mem st' = mem st" using k e(3) by simp
        have "\<forall>k' i. r = Some (k', i) \<longrightarrow> i < int (VPIPPAGE c) \<and> (k < length ps \<longrightarrow> k' < length ps') \<and>
            (if 0 \<le> idx then 0 \<le> i \<and> int k' * int (VPIPPAGE c) + i = int k * int (VPIPPAGE c) + idx
             else k' = k \<and> i = idx)"
          using r ge False by (auto simp: algebra_simps split: if_splits)
        with e1 e2 e3 show ?thesis by blast
      qed
    qed
  qed
qed


lemma vpi_at_append_zero:
  "vpi_at c (ps @ replicate n zero_vpi_page) j = vpi_at c ps j"
  by (auto simp: vpi_at_def nth_append zero_vpi_page_def)

lemma divmod_pos:
  assumes "0 \<le> i" "i < int V" "int k * int V + i = idx"
  shows "0 \<le> idx" "0 < V" "nat idx div V = k" "nat idx mod V = nat i"
proof -
  show p: "0 \<le> idx" using assms by auto
  show v: "0 < V" using assms by auto
  have "idx = int (k * V + nat i)" using assms by simp
  then have n: "nat idx = k * V + nat i" by (simp only: nat_int)
  have l: "nat i < V" using assms by auto
  show "nat idx div V = k" using n l by simp
  show "nat idx mod V = nat i" using n l by simp
qed

lemma vpi_load_at:
  assumes "k < length ps" "0 \<le> i" "i < int (VPIPPAGE c)" "int k * int (VPIPPAGE c) + i = idx"
  shows "vpi_load c ps (k, i) = Inr (vpi_at c ps idx)"
  using assms divmod_pos[OF assms(2,3,4)]
  by (simp add: vpi_load_def vpi_at_def)

lemma vpi_store_at:
  assumes "k < length ps" "0 \<le> i" "i < int (VPIPPAGE c)" "int k * int (VPIPPAGE c) + i = idx"
  shows "\<exists>ps2. vpi_store c ps (k, i) v = Inr ps2 \<and> length ps2 = length ps
           \<and> (\<forall>j. vpi_at c ps2 j = (if j = idx then v else vpi_at c ps j))"
proof -
  note d = divmod_pos[OF assms(2,3,4)]
  let ?ps2 = "ps[k := (ps ! k)\<lparr>infos := (infos (ps ! k))(nat i := v)\<rparr>]"
  have s: "vpi_store c ps (k, i) v = Inr ?ps2"
    using assms by (simp add: vpi_store_def)
  have "vpi_at c ?ps2 j = (if j = idx then v else vpi_at c ps j)" for j
  proof (cases "j = idx")
    case True
    then show ?thesis using assms d by (simp add: vpi_at_def)
  next
    case False
    show ?thesis
    proof (cases "0 \<le> j \<and> nat j div VPIPPAGE c = k")
      case True
      then have "nat j mod VPIPPAGE c \<noteq> nat i"
        using False d assms
        by (metis div_mult_mod_eq int_nat_eq)
      then show ?thesis using False True assms d by (simp add: vpi_at_def)
    next
      case False
      then show ?thesis using \<open>j \<noteq> idx\<close> by (auto simp: vpi_at_def)
    qed
  qed
  with s show ?thesis by auto
qed

lemma vpi_index_cases:
  "va2vpi_idx vr va = Inr idx \<Longrightarrow> vpi_index vr va = sint idx"
  by (simp add: vpi_index_def)

lemma va2vpage_info_frame:
  assumes "va2vpage_info c vr va st = Inr (r, vr1, st1)"
  shows "dir vr1 = dir vr" "va_base vr1 = va_base vr" "size_vr vr1 = size_vr vr"
    "mem st1 = mem st" "\<exists>tk. freelist st = tk @ freelist st1"
    "vpi_at c (pages vr1) j = vpi_at c (pages vr) j"
    "length (pages vr) \<le> length (pages vr1)"
proof -
  from assms obtain ps st0 idx where
    a: "(if pages vr = [] then (case kalloc st of None \<Rightarrow> Inl NullDeref
          | Some (p, st1) \<Rightarrow> Inr ([zero_vpi_page], st1)) else Inr (pages vr, st)) = Inr (ps, st0)"
    and i: "va2vpi_idx vr va = Inr idx"
    and w: "vpi_walk c ps 0 (sint idx) st0 = (r, pages vr1, st1)"
    and v: "vr1 = vr\<lparr>pages := pages vr1\<rparr>"
    by (auto simp: va2vpage_info_def split: sum.splits prod.splits)
  from v show "dir vr1 = dir vr" "va_base vr1 = va_base vr" "size_vr vr1 = size_vr vr"
    by (metis vregion.select_convs vregion.surjective vregion.update_convs(4))+
  from a have p: "ps = pages vr @ replicate (length ps - length (pages vr)) zero_vpi_page
      \<and> mem st0 = mem st \<and> (\<exists>tk. freelist st = tk @ freelist st0)"
    by (auto split: if_splits option.splits dest!: kalloc_Some)
  from vpi_walk_spec[OF w] obtain n tk where
    q: "pages vr1 = ps @ replicate n zero_vpi_page" "freelist st0 = tk @ freelist st1" "mem st1 = mem st0"
    by blast
  show "mem st1 = mem st" using p q by simp
  show "\<exists>tk. freelist st = tk @ freelist st1" using p q by auto
  show "vpi_at c (pages vr1) j = vpi_at c (pages vr) j"
    using p q by (metis vpi_at_append_zero)
  show "length (pages vr) \<le> length (pages vr1)"
    using p q by (metis length_append le_add1 le_trans)
qed

lemma va2vpage_info_ptr:
  assumes "va2vpage_info c vr va st = Inr (Some p, vr1, st1)"
  shows "0 \<le> vpi_index vr va \<Longrightarrow> vpi_load c (pages vr1) p = Inr (vpi_at c (pages vr) (vpi_index vr va))"
    "0 \<le> vpi_index vr va \<Longrightarrow> \<exists>ps2. vpi_store c (pages vr1) p v = Inr ps2 \<and> length ps2 = length (pages vr1)
        \<and> (\<forall>j. vpi_at c ps2 j = (if j = vpi_index vr va then v else vpi_at c (pages vr) j))"
    "vpi_index vr va < 0 \<Longrightarrow> vpi_load c (pages vr1) p = Inl WildPointer"
    "vpi_index vr va < 0 \<Longrightarrow> vpi_store c (pages vr1) p v = Inl WildPointer"
proof -
  from assms obtain ps st0 idx where
    a: "(if pages vr = [] then (case kalloc st of None \<Rightarrow> Inl NullDeref
          | Some (p, st1) \<Rightarrow> Inr ([zero_vpi_page], st1)) else Inr (pages vr, st)) = Inr (ps, st0)"
    and i: "va2vpi_idx vr va = Inr idx"
    and w: "vpi_walk c ps 0 (sint idx) st0 = (Some p, pages vr1, st1)"
    by (auto simp: va2vpage_info_def split: sum.splits prod.splits)
  have ix: "vpi_index vr va = sint idx" using i by (rule vpi_index_cases)
  from a have ne: "0 < length ps" by (auto split: if_splits option.splits)
  obtain k' i' where p: "p = (k', i')" by (cases p)
  from vpi_walk_spec[OF w] p ne
  have f: "i' < int (VPIPPAGE c)" "k' < length (pages vr1)"
     "if 0 \<le> sint idx then 0 \<le> i' \<and> int k' * int (VPIPPAGE c) + i' = sint idx else k' = 0 \<and> i' = sint idx"
    by auto
  note fr = va2vpage_info_frame[OF assms]
  {
    assume nn: "0 \<le> vpi_index vr va"
    with f ix have g: "0 \<le> i'" "int k' * int (VPIPPAGE c) + i' = vpi_index vr va" by auto
    show "vpi_load c (pages vr1) p = Inr (vpi_at c (pages vr) (vpi_index vr va))"
      using vpi_load_at[OF f(2) g(1) f(1) g(2)] fr(6) p by simp
    show "\<exists>ps2. vpi_store c (pages vr1) p v = Inr ps2 \<and> length ps2 = length (pages vr1)
        \<and> (\<forall>j. vpi_at c ps2 j = (if j = vpi_index vr va then v else vpi_at c (pages vr) j))"
    proof -
      from vpi_store_at[OF f(2) g(1) f(1) g(2), of v] obtain ps2 where
        s: "vpi_store c (pages vr1) (k', i') v = Inr ps2" "length ps2 = length (pages vr1)"
           "\<forall>j. vpi_at c ps2 j = (if j = vpi_index vr va then v else vpi_at c (pages vr1) j)"
        by blast
      from s(3) fr(6) have "\<forall>j. vpi_at c ps2 j = (if j = vpi_index vr va then v else vpi_at c (pages vr) j)"
        by simp
      with s(1,2) p show ?thesis by blast
    qed
  }
  {
    assume "vpi_index vr va < 0"
    with f ix have "i' < 0" by auto
    then show "vpi_load c (pages vr1) p = Inl WildPointer" "vpi_store c (pages vr1) p v = Inl WildPointer"
      using p by (simp_all add: vpi_load_def vpi_store_def)
  }
qed

section \<open>Page arithmetic and the steps of the allocation loop\<close>

lemma pgsize_unat: "unat PGSIZE = 4096" by (simp add: PGSIZE_def)

lemma aligned_unat: "(a mod PGSIZE = 0) = (unat a mod 4096 = 0)"
proof -
  have "unat (a mod PGSIZE) = unat a mod 4096"
    by (simp add: unat_mod pgsize_unat)
  then show ?thesis by (metis unat_eq_0)
qed

lemma PGROUNDUP_aligned: "PGROUNDUP x mod PGSIZE = 0"
proof -
  have m: "(PGSIZE - 1 :: u64) = mask 12" by (simp add: PGSIZE_def mask_eq_exp_minus_1)
  have t: "y mod PGSIZE = take_bit 12 y" for y :: u64
    by (simp add: PGSIZE_def take_bit_eq_mod)
  have "take_bit 12 (z AND NOT (mask 12)) = 0" for z :: u64
    by (simp add: bit_eq_iff bit_simps)
  then show ?thesis unfolding PGROUNDUP_def m t by simp
qed

lemma page_step:
  assumes "a mod PGSIZE = 0" "a < E" "unat E + 4096 \<le> 2 ^ 64"
  shows "unat (a + PGSIZE) = unat a + 4096" "(a + PGSIZE) mod PGSIZE = 0" "a < a + PGSIZE"
    "p mod PGSIZE = 0 \<Longrightarrow> (a < p) = (a + PGSIZE \<le> p)"
proof -
  have l: "unat a < unat E" using assms(2) by (simp add: word_less_nat_alt)
  then have "unat a + unat PGSIZE < 2 ^ LENGTH(64)" using assms(3) by (simp add: pgsize_unat)
  then have "unat (a + PGSIZE) = unat a + unat PGSIZE" by (simp only: unat_add_lem)
  then show u: "unat (a + PGSIZE) = unat a + 4096" by (simp add: pgsize_unat)
  have al: "unat a mod 4096 = 0" using assms(1) by (simp add: aligned_unat)
  show "(a + PGSIZE) mod PGSIZE = 0" using u al by (simp add: aligned_unat)
  show "a < a + PGSIZE" using u by (simp add: word_less_nat_alt)
  assume "p mod PGSIZE = 0"
  then have pl: "unat p mod 4096 = 0" by (simp add: aligned_unat)
  from al obtain x where x: "unat a = 4096 * x" by (auto simp: mod_eq_0_iff_dvd elim: dvdE)
  from pl obtain y where y: "unat p = 4096 * y" by (auto simp: mod_eq_0_iff_dvd elim: dvdE)
  have "(unat a < unat p) = (unat a + 4096 \<le> unat p)"
    unfolding x y by auto
  then show "(a < p) = (a + PGSIZE \<le> p)" using u by (simp add: word_less_nat_alt word_le_nat_alt)
qed

lemma addmap_failure_ret_aux:
  assumes "addmap_failure c from_va a vr st = Some y"
  shows "\<forall>ret vr' st'. y = Inr (ret, vr', st') \<longrightarrow> ret = - 1"
  by (rule addmap_failure.raw_induct[OF _ assms])
     (auto split: if_splits sum.splits option.splits prod.splits)

lemma addmap_failure_ret:
  "addmap_failure c from_va a vr st = Some (Inr (ret, vr', st')) \<Longrightarrow> ret = - 1"
  using addmap_failure_ret_aux by blast

lemma addmap_loop_step:
  assumes "addmap_loop c from_va sz prs wr a vr st = Some (Inr (ret, vr', st'))"
    and "ret \<noteq> - 1" and "a < from_va + sz"
  obtains p vr1 st1 vpi m st2 ps2 where
    "va2vpage_info c vr a st = Inr (Some p, vr1, st1)"
    "vpi_load c (pages vr1) p = Inr vpi" "used vpi = 0"
    "kalloc st1 = Some (m, st2)"
    "vpi_store c (pages vr1) p (vpi\<lparr>used := 1, present := prs, writable := wr, ppn := m\<rparr>) = Inr ps2"
    "addmap_loop c from_va sz prs wr (a + PGSIZE) (vr1\<lparr>pages := ps2\<rparr>) (memset_page m 0 st2)
       = Some (Inr (ret, vr', st'))"
  using assms(1)[unfolded addmap_loop.simps[of c from_va sz prs wr a vr st]] assms(2,3)
  by (auto split: if_splits sum.splits option.splits prod.splits dest: addmap_failure_ret)

lemma addmap_loop_exit:
  assumes "addmap_loop c from_va sz prs wr a vr st = Some (Inr (ret, vr', st'))"
    and "\<not> a < from_va + sz"
  shows "ret = ucast sz" "vr' = vr" "st' = st"
  using assms(1)[unfolded addmap_loop.simps[of c from_va sz prs wr a vr st]] assms(2)
  by simp_all

lemma vpi_index_cong:
  "dir vr1 = dir vr \<Longrightarrow> va_base vr1 = va_base vr \<Longrightarrow> vpi_index vr1 p = vpi_index vr p"
  by (simp add: vpi_index_def va2vpi_idx_def)

lemma addmap_loop_success:
  assumes b: "unat (from_va + sz) + 4096 \<le> 2 ^ 64"
    and al: "a mod PGSIZE = 0"
    and run: "addmap_loop c from_va sz prs wr a vr st = Some (Inr (ret, vr', st'))"
    and ok: "ret \<noteq> - 1"
  shows "ret = ucast sz \<and> dir vr' = dir vr \<and> va_base vr' = va_base vr \<and> size_vr vr' = size_vr vr
     \<and> set (freelist st') \<subseteq> set (freelist st)
     \<and> (\<forall>x. mem st x = (\<lambda>_. 0) \<longrightarrow> mem st' x = (\<lambda>_. 0))
     \<and> (\<forall>p. p mod PGSIZE = 0 \<and> a \<le> p \<and> p < from_va + sz \<longrightarrow>
          used (vpi_at c (pages vr') (vpi_index vr p)) = 1
          \<and> present (vpi_at c (pages vr') (vpi_index vr p)) = prs
          \<and> writable (vpi_at c (pages vr') (vpi_index vr p)) = wr
          \<and> ppn (vpi_at c (pages vr') (vpi_index vr p)) \<in> set (freelist st)
          \<and> mem st' (ppn (vpi_at c (pages vr') (vpi_index vr p))) = (\<lambda>_. 0))
     \<and> (\<forall>j. (\<forall>p. p mod PGSIZE = 0 \<and> a \<le> p \<and> p < from_va + sz \<longrightarrow> vpi_index vr p \<noteq> j)
            \<longrightarrow> vpi_at c (pages vr') j = vpi_at c (pages vr) j)"
  using al run
proof (induction "unat (from_va + sz) - unat a" arbitrary: a vr st rule: less_induct)
  case less
  define good where "good S M v \<longleftrightarrow> used v = 1 \<and> present v = prs \<and> writable v = wr
      \<and> ppn v \<in> set S \<and> M (ppn v) = (\<lambda>_. 0)" for S :: "u64 list" and M :: "u64 \<Rightarrow> nat \<Rightarrow> byte" and v :: vpage_info
  show ?case
  proof (cases "a < from_va + sz")
    case False
    from addmap_loop_exit[OF less.prems(2) False]
    have e: "ret = ucast sz" "vr' = vr" "st' = st" .
    have "\<not> (a \<le> p \<and> p < from_va + sz)" for p using False by auto
    with e show ?thesis by blast
  next
    case True
    from addmap_loop_step[OF less.prems(2) ok True] obtain p0 vr1 st1 vpi m st2 ps2 where
      vi: "va2vpage_info c vr a st = Inr (Some p0, vr1, st1)"
      and ld: "vpi_load c (pages vr1) p0 = Inr vpi" and un: "used vpi = 0"
      and ka: "kalloc st1 = Some (m, st2)"
      and sto: "vpi_store c (pages vr1) p0 (vpi\<lparr>used := 1, present := prs, writable := wr, ppn := m\<rparr>) = Inr ps2"
      and rec: "addmap_loop c from_va sz prs wr (a + PGSIZE) (vr1\<lparr>pages := ps2\<rparr>) (memset_page m 0 st2)
         = Some (Inr (ret, vr', st'))"
      by blast
    let ?vr2 = "vr1\<lparr>pages := ps2\<rparr>" and ?st3 = "memset_page m 0 st2"
    let ?rec = "vpi\<lparr>used := 1, present := prs, writable := wr, ppn := m\<rparr>"
    note fr = va2vpage_info_frame[OF vi]
    note pt = va2vpage_info_ptr[OF vi]
    have nn: "0 \<le> vpi_index vr a"
    proof (rule ccontr)
      assume "\<not> 0 \<le> vpi_index vr a"
      then have "vpi_load c (pages vr1) p0 = Inl WildPointer" using pt(3) by simp
      with ld show False by simp
    qed
    from pt(2)[OF nn, of ?rec] sto
    have at2: "vpi_at c ps2 j = (if j = vpi_index vr a then ?rec else vpi_at c (pages vr) j)" for j
      by auto
    note ps = page_step[OF less.prems(1) True b]
    have meas: "unat (from_va + sz) - unat (a + PGSIZE) < unat (from_va + sz) - unat a"
      using ps(1) True by (simp add: word_less_nat_alt)
    have ix: "vpi_index ?vr2 p = vpi_index vr p" for p
      using fr(1,2) by (simp add: vpi_index_def va2vpi_idx_def)
    note ih = less.hyps[OF meas ps(2) rec, unfolded ix]
    from ih have r1: "ret = ucast sz" "dir vr' = dir ?vr2" "va_base vr' = va_base ?vr2" "size_vr vr' = size_vr ?vr2"
      by simp_all
    from ih have sub: "set (freelist st') \<subseteq> set (freelist ?st3)"
      by simp
    from ih have z0: "\<forall>x. mem ?st3 x = (\<lambda>_. 0) \<longrightarrow> mem st' x = (\<lambda>_. 0)"
      by (elim conjE)
    then have z: "\<And>x. mem ?st3 x = (\<lambda>_. 0) \<Longrightarrow> mem st' x = (\<lambda>_. 0)"
      by simp
    from ih have g0: "\<forall>p. p mod PGSIZE = 0 \<and> a + PGSIZE \<le> p \<and> p < from_va + sz \<longrightarrow>
          used (vpi_at c (pages vr') (vpi_index vr p)) = 1
          \<and> present (vpi_at c (pages vr') (vpi_index vr p)) = prs
          \<and> writable (vpi_at c (pages vr') (vpi_index vr p)) = wr
          \<and> ppn (vpi_at c (pages vr') (vpi_index vr p)) \<in> set (freelist ?st3)
          \<and> mem st' (ppn (vpi_at c (pages vr') (vpi_index vr p))) = (\<lambda>_. 0)"
      by (elim conjE)
    have g: "good (freelist ?st3) (mem st') (vpi_at c (pages vr') (vpi_index vr p))"
      if "p mod PGSIZE = 0" "a + PGSIZE \<le> p" "p < from_va + sz" for p
      using g0[rule_format, of p] that unfolding good_def by simp
    from ih have u0: "\<forall>j. (\<forall>p. p mod PGSIZE = 0 \<and> a + PGSIZE \<le> p \<and> p < from_va + sz \<longrightarrow> vpi_index vr p \<noteq> j)
            \<longrightarrow> vpi_at c (pages vr') j = vpi_at c (pages ?vr2) j"
      by (elim conjE)
    have u: "vpi_at c (pages vr') j = vpi_at c (pages ?vr2) j"
      if "\<forall>p. p mod PGSIZE = 0 \<and> a + PGSIZE \<le> p \<and> p < from_va + sz \<longrightarrow> vpi_index vr p \<noteq> j" for j
      using u0[rule_format, of j] that by simp
    from fr(5) obtain tk where tk: "freelist st = tk @ freelist st1" by blast
    from kalloc_Some[OF ka] have k2: "freelist st1 = m # freelist st2" "mem st2 = mem st1" by auto
    have f3: "freelist ?st3 = freelist st2" by (simp add: memset_page_def)
    have m3: "mem ?st3 = (mem st)(m := (\<lambda>_. 0))" using k2 fr(4) by (simp add: memset_page_def)
    have min: "m \<in> set (freelist st)" using tk k2 by simp
    have s3: "set (freelist ?st3) \<subseteq> set (freelist st)" using tk k2 f3 by auto
    have zm: "mem st' m = (\<lambda>_. 0)" using z[of m] m3 by simp
    have zz: "mem st x = (\<lambda>_. 0) \<Longrightarrow> mem st' x = (\<lambda>_. 0)" for x
      using z[of x] m3 by simp
    have mono: "good (freelist ?st3) (mem st') v \<Longrightarrow> good (freelist st) (mem st') v" for v
      using s3 by (auto simp: good_def)
    have goodall: "good (freelist st) (mem st') (vpi_at c (pages vr') (vpi_index vr p))"
      if p: "p mod PGSIZE = 0" "a \<le> p" "p < from_va + sz" for p
    proof (cases "a < p")
      case True
      then have "a + PGSIZE \<le> p" using ps(4)[OF p(1)] by simp
      from mono[OF g[OF p(1) this p(3)]] show ?thesis .
    next
      case False
      with p(2) have pa: "p = a" by simp
      show ?thesis
      proof (cases "\<exists>q. q mod PGSIZE = 0 \<and> a + PGSIZE \<le> q \<and> q < from_va + sz \<and> vpi_index vr q = vpi_index vr a")
        case True
        then obtain q where q: "q mod PGSIZE = 0" "a + PGSIZE \<le> q" "q < from_va + sz"
            "vpi_index vr q = vpi_index vr a" by (elim exE conjE)
        from mono[OF g[OF q(1,2,3)]] q(4) pa show ?thesis by simp
      next
        case False
        then have "vpi_at c (pages vr') (vpi_index vr a) = vpi_at c (pages ?vr2) (vpi_index vr a)"
          by (intro u) auto
        also have "\<dots> = ?rec" using at2 by simp
        finally show ?thesis using pa min zm by (simp add: good_def)
      qed
    qed
    have frame: "vpi_at c (pages vr') j = vpi_at c (pages vr) j"
      if j: "\<forall>p. p mod PGSIZE = 0 \<and> a \<le> p \<and> p < from_va + sz \<longrightarrow> vpi_index vr p \<noteq> j" for j
    proof -
      have ja: "j \<noteq> vpi_index vr a" using j[rule_format, of a] less.prems(1) True by auto
      have "vpi_index vr p \<noteq> j" if p: "p mod PGSIZE = 0 \<and> a + PGSIZE \<le> p \<and> p < from_va + sz" for p
      proof -
        from ps(3) p have "a \<le> p" by (metis less_le_trans order_less_imp_le)
        with j[rule_format, of p] p show ?thesis by simp
      qed
      then have "\<forall>p. p mod PGSIZE = 0 \<and> a + PGSIZE \<le> p \<and> p < from_va + sz \<longrightarrow> vpi_index vr p \<noteq> j"
        by blast
      from u[OF this] have "vpi_at c (pages vr') j = vpi_at c ps2 j" by simp
      with ja at2 show ?thesis by simp
    qed
    have meta: "dir vr' = dir vr" "va_base vr' = va_base vr" "size_vr vr' = size_vr vr"
      using r1 fr(1,2,3) by simp_all
    from sub s3 have subs: "set (freelist st') \<subseteq> set (freelist st)" by blast
    have goodall': "used (vpi_at c (pages vr') (vpi_index vr p)) = 1
          \<and> present (vpi_at c (pages vr') (vpi_index vr p)) = prs
          \<and> writable (vpi_at c (pages vr') (vpi_index vr p)) = wr
          \<and> ppn (vpi_at c (pages vr') (vpi_index vr p)) \<in> set (freelist st)
          \<and> mem st' (ppn (vpi_at c (pages vr') (vpi_index vr p))) = (\<lambda>_. 0)"
      if "p mod PGSIZE = 0 \<and> a \<le> p \<and> p < from_va + sz" for p
      using goodall[of p] that unfolding good_def by simp
    show ?thesis
    proof (intro conjI allI impI)
      show "ret = ucast sz" by (rule r1(1))
      show "dir vr' = dir vr" "va_base vr' = va_base vr" "size_vr vr' = size_vr vr" by (rule meta)+
      show "set (freelist st') \<subseteq> set (freelist st)" by (rule subs)
      show "mem st' x = (\<lambda>_. 0)" if "mem st x = (\<lambda>_. 0)" for x using that by (rule zz)
      fix p assume p: "p mod PGSIZE = 0 \<and> a \<le> p \<and> p < from_va + sz"
      from goodall'[OF p]
      show "used (vpi_at c (pages vr') (vpi_index vr p)) = 1"
        "present (vpi_at c (pages vr') (vpi_index vr p)) = prs"
        "writable (vpi_at c (pages vr') (vpi_index vr p)) = wr"
        "ppn (vpi_at c (pages vr') (vpi_index vr p)) \<in> set (freelist st)"
        "mem st' (ppn (vpi_at c (pages vr') (vpi_index vr p))) = (\<lambda>_. 0)"
        by simp_all
    next
      fix j assume "\<forall>p. p mod PGSIZE = 0 \<and> a \<le> p \<and> p < from_va + sz \<longrightarrow> vpi_index vr p \<noteq> j"
      then show "vpi_at c (pages vr') j = vpi_at c (pages vr) j" by (rule frame)
    qed
  qed
qed

lemma vpi_walk_present:
  "0 \<le> idx \<Longrightarrow> 0 < VPIPPAGE c \<Longrightarrow> k + nat idx div VPIPPAGE c < length ps \<Longrightarrow>
     vpi_walk c ps k idx st = (Some (k + nat idx div VPIPPAGE c, idx mod int (VPIPPAGE c)), ps, st)"
proof (induction c ps k idx st rule: vpi_walk.induct)
  case (1 c ps k idx st)
  show ?case
  proof (cases "idx \<ge> int (VPIPPAGE c)")
    case False
    with "1.prems" have "nat idx div VPIPPAGE c = 0" "idx mod int (VPIPPAGE c) = idx" by auto
    with False show ?thesis by (simp add: vpi_walk.simps[of c ps k idx st])
  next
    case True
    have "nat idx = nat (idx - int (VPIPPAGE c)) + VPIPPAGE c"
      using True by linarith
    then have "nat idx div VPIPPAGE c = (nat (idx - int (VPIPPAGE c)) + VPIPPAGE c) div VPIPPAGE c"
      by simp
    also have "\<dots> = Suc (nat (idx - int (VPIPPAGE c)) div VPIPPAGE c)"
      using "1.prems"(2) div_add_self2[of "VPIPPAGE c" "nat (idx - int (VPIPPAGE c))"] by auto
    finally have d: "nat idx div VPIPPAGE c = Suc (nat (idx - int (VPIPPAGE c)) div VPIPPAGE c)" .
    have sk: "Suc k < length ps" using "1.prems"(3) d by simp
    have st: "vpi_walk c ps k idx st = vpi_walk c ps (Suc k) (idx - int (VPIPPAGE c)) st"
      using True sk by (simp add: vpi_walk.simps[of c ps k idx st])
    have "Suc k + nat (idx - int (VPIPPAGE c)) div VPIPPAGE c < length ps"
      using "1.prems"(3) d by simp
    from "1.IH"(1)[OF True sk _ "1.prems"(2) this] True
    have rc: "vpi_walk c ps (Suc k) (idx - int (VPIPPAGE c)) st
        = (Some (Suc k + nat (idx - int (VPIPPAGE c)) div VPIPPAGE c,
                 (idx - int (VPIPPAGE c)) mod int (VPIPPAGE c)), ps, st)"
      by simp
    show ?thesis unfolding st rc d by simp
  qed
qed

lemma vpi_at_nonzero:
  assumes "vpi_at c ps idx \<noteq> zero_vpi"
  shows "0 \<le> idx" "0 < VPIPPAGE c" "nat idx div VPIPPAGE c < length ps"
  using assms by (auto simp: vpi_at_def split: if_splits)

lemma va2vpage_info_present:
  assumes "vpi_at c (pages vr) (vpi_index vr va) \<noteq> zero_vpi"
  shows "\<exists>p. va2vpage_info c vr va st = Inr (Some p, vr, st)
           \<and> vpi_load c (pages vr) p = Inr (vpi_at c (pages vr) (vpi_index vr va))"
proof -
  note n = vpi_at_nonzero[OF assms]
  from n(3) have ne: "pages vr \<noteq> []" by auto
  obtain idx where i: "va2vpi_idx vr va = Inr idx" "vpi_index vr va = sint idx"
    using n(1) by (cases "va2vpi_idx vr va") (auto simp: vpi_index_def)
  have w: "vpi_walk c (pages vr) 0 (sint idx) st
     = (Some (0 + nat (sint idx) div VPIPPAGE c, sint idx mod int (VPIPPAGE c)), pages vr, st)"
    using n i(2) by (intro vpi_walk_present) auto
  have v: "va2vpage_info c vr va st
      = Inr (Some (nat (sint idx) div VPIPPAGE c, sint idx mod int (VPIPPAGE c)), vr, st)"
    using ne i(1) w by (simp add: va2vpage_info_def)
  have dv: "int (nat (sint idx) div VPIPPAGE c) = sint idx div int (VPIPPAGE c)"
    using n(1) i(2) by (simp add: zdiv_int)
  have "vpi_load c (pages vr) (nat (sint idx) div VPIPPAGE c, sint idx mod int (VPIPPAGE c))
      = Inr (vpi_at c (pages vr) (sint idx))"
    using n i(2) dv by (intro vpi_load_at) auto
  with v i(2) show ?thesis by auto
qed

lemma used_nonzero: "used v \<noteq> 0 \<Longrightarrow> v \<noteq> zero_vpi"
  by (auto simp: zero_vpi_def)


section \<open>Successful calls of vregionaddmap (C3)\<close>

lemma sint_ucast_small:
  assumes "unat (sz :: u64) < 2 ^ 31"
  shows "sint (ucast sz :: cint) = int (unat sz)"
proof -
  have "int (unat sz) < int (2 ^ 31)" using assms by (simp only: of_nat_less_iff)
  then have u: "uint sz < 2 ^ 31" by simp
  have p: "- (2 ^ 31) \<le> uint sz"
  proof -
    have "(0::int) \<le> uint sz" by simp
    moreover have "- (2 ^ 31) \<le> (0::int)" by simp
    ultimately show ?thesis by (rule order_trans[rotated])
  qed
  have "sint (ucast sz :: cint) = signed_take_bit (LENGTH(32) - Suc 0) (uint sz)"
    by (rule signed_ucast_eq)
  also have "LENGTH(32) - Suc 0 = 31" by simp
  also have "signed_take_bit 31 (uint sz) = uint sz"
    using p u by (rule signed_take_bit_int_eq_self)
  finally show ?thesis by simp
qed

text \<open>
  What the allocation loop establishes when the call returns a value \<open>\<ge> 0\<close>, with the
  kernel base leaving at least one page below \<open>2^64\<close>: every page the loop visits (the
  page-aligned \<open>a\<close> from \<open>PGROUNDUP(from_va)\<close> on that are below the 64-bit sum
  \<open>from_va + sz\<close>) has a record with \<open>used = 1\<close>, the given flags and a zero-filled page
  taken from the allocator; no other record is altered; direction, base and size of
  the region are not modified; the value returned is \<open>sz\<close> cut to the 32 bits of an
  \<open>int\<close>.
\<close>

lemma vregionaddmap_success:
  assumes kb: "unat (KERNBASE c) + 4096 \<le> 2 ^ 64"
    and run: "vregionaddmap c vr from_va sz prs wr st = Some (Inr (ret, vr', st'))"
    and ok: "0 <=s ret" and pos: "0 < sz"
  shows "ret = ucast sz \<and> (unat sz < 2 ^ 31 \<longrightarrow> sint ret = int (unat sz))
     \<and> dir vr' = dir vr \<and> va_base vr' = va_base vr \<and> size_vr vr' = size_vr vr
     \<and> (\<forall>a. a mod PGSIZE = 0 \<and> PGROUNDUP from_va \<le> a \<and> a < from_va + sz \<longrightarrow>
          used (vpi_at c (pages vr') (vpi_index vr a)) = 1
          \<and> present (vpi_at c (pages vr') (vpi_index vr a)) = prs
          \<and> writable (vpi_at c (pages vr') (vpi_index vr a)) = wr
          \<and> ppn (vpi_at c (pages vr') (vpi_index vr a)) \<in> set (freelist st)
          \<and> mem st' (ppn (vpi_at c (pages vr') (vpi_index vr a))) = (\<lambda>_. 0))
     \<and> (\<forall>j. (\<forall>a. a mod PGSIZE = 0 \<and> PGROUNDUP from_va \<le> a \<and> a < from_va + sz \<longrightarrow> vpi_index vr a \<noteq> j)
            \<longrightarrow> vpi_at c (pages vr') j = vpi_at c (pages vr) j)"
proof -
  have n1: "ret \<noteq> - 1" using ok by (auto simp: word_sle_eq)
  have g1: "\<not> KERNBASE c \<le> sz + from_va"
  proof
    assume "KERNBASE c \<le> sz + from_va"
    with run have "ret = - 1" by (simp add: vregionaddmap_def)
    with n1 show False by simp
  qed
  have g2: "\<not> sz \<le> 0" using pos by simp
  from run g1 g2 have lp: "addmap_loop c from_va sz prs wr (PGROUNDUP from_va) vr st
      = Some (Inr (ret, vr', st'))"
    by (simp add: vregionaddmap_def)
  have "unat (sz + from_va) < unat (KERNBASE c)" using g1 by (simp add: word_le_nat_alt)
  with kb have b: "unat (from_va + sz) + 4096 \<le> 2 ^ 64" by (simp add: add.commute)
  note r = addmap_loop_success[OF b PGROUNDUP_aligned lp n1]
  from r have e: "ret = ucast sz" by simp
  have s: "unat sz < 2 ^ 31 \<longrightarrow> sint ret = int (unat sz)"
    unfolding e using sint_ucast_small[of sz] by blast
  from r s show ?thesis by (elim conjE) (intro conjI; assumption)
qed

text \<open>
  The theorem on a run: two pages at \<open>0x10000\<close> and \<open>0x11000\<close> are mapped read-only into
  a code region with one empty chunk, from an allocator with the free pages 5 and 6.
\<close>

lemma addmap_two_pages_run:
  "\<exists>vr' st'. vregionaddmap params0 code1 0x10000 0x2000 1 0 (kmem_of [5, 6])
      = Some (Inr (0x2000, vr', st'))"
  by (simp add: vregionaddmap_def params0_def code1_def kmem_of_def PGROUNDUP_def PGSIZE_def
      addmap_loop.simps addmap_failure.simps va2vpage_info_def kalloc_def kfree_def
      va2vpi_idx_def PAGE_SHIFT_def vpi_load_def vpi_store_def zero_vpi_page_def zero_vpi_def
      memset_page_def vpi_walk.simps)

lemma two_page_range:
  assumes "a mod PGSIZE = 0" "0x10000 \<le> a" "a < 0x12000"
  shows "a = 0x10000 \<or> a = 0x11000"
proof -
  from assms(1) have "unat a mod 4096 = 0" by (simp add: aligned_unat)
  then obtain x where x: "unat a = 4096 * x" by (auto simp: mod_eq_0_iff_dvd elim: dvdE)
  from assms(2,3) have "65536 \<le> unat a" "unat a < 73728"
    by (simp_all add: word_le_nat_alt word_less_nat_alt)
  with x have "x = 16 \<or> x = 17" by auto
  with x have "unat a = unat (0x10000 :: u64) \<or> unat a = unat (0x11000 :: u64)" by auto
  then show ?thesis by (simp only: word_unat_eq_iff)
qed

lemma vregionaddmap_success_example:
  "\<exists>vr' st'. vregionaddmap params0 code1 0x10000 0x2000 1 0 (kmem_of [5, 6])
        = Some (Inr (0x2000, vr', st'))
     \<and> size_vr vr' = 0
     \<and> used (vpi_at params0 (pages vr') (vpi_index code1 0x11000)) = 1
     \<and> present (vpi_at params0 (pages vr') (vpi_index code1 0x11000)) = 1
     \<and> writable (vpi_at params0 (pages vr') (vpi_index code1 0x11000)) = 0
     \<and> ppn (vpi_at params0 (pages vr') (vpi_index code1 0x11000)) \<in> {5, 6}
     \<and> mem st' (ppn (vpi_at params0 (pages vr') (vpi_index code1 0x11000))) = (\<lambda>_. 0)
     \<and> vpi_at params0 (pages vr') 2 = zero_vpi"
proof -
  from addmap_two_pages_run obtain vr' st' where
    r: "vregionaddmap params0 code1 0x10000 0x2000 1 0 (kmem_of [5, 6]) = Some (Inr (0x2000, vr', st'))"
    by (elim exE)
  have kb: "unat (KERNBASE params0) + 4096 \<le> 2 ^ 64" by (simp add: params0_def)
  have ok: "0 <=s (0x2000 :: cint)" by (simp add: word_sle_eq)
  have pos: "0 < (0x2000 :: u64)" by simp
  note t = vregionaddmap_success[OF kb r ok pos]
  have sz: "size_vr vr' = 0" using t by (simp add: code1_def)
  have in_range: "(0x11000 :: u64) mod PGSIZE = 0 \<and> PGROUNDUP 0x10000 \<le> (0x11000 :: u64)
      \<and> (0x11000 :: u64) < 0x10000 + 0x2000"
    by (simp add: PGSIZE_def PGROUNDUP_def)
  from t have pg: "\<forall>a. a mod PGSIZE = 0 \<and> PGROUNDUP 0x10000 \<le> a \<and> a < 0x10000 + 0x2000 \<longrightarrow>
          used (vpi_at params0 (pages vr') (vpi_index code1 a)) = 1
          \<and> present (vpi_at params0 (pages vr') (vpi_index code1 a)) = 1
          \<and> writable (vpi_at params0 (pages vr') (vpi_index code1 a)) = 0
          \<and> ppn (vpi_at params0 (pages vr') (vpi_index code1 a)) \<in> set (freelist (kmem_of [5, 6]))
          \<and> mem st' (ppn (vpi_at params0 (pages vr') (vpi_index code1 a))) = (\<lambda>_. 0)"
    by (elim conjE)
  note p1 = pg[rule_format, OF in_range]
  from t have fr: "\<forall>j. (\<forall>a. a mod PGSIZE = 0 \<and> PGROUNDUP 0x10000 \<le> a \<and> a < 0x10000 + 0x2000 \<longrightarrow> vpi_index code1 a \<noteq> j)
            \<longrightarrow> vpi_at params0 (pages vr') j = vpi_at params0 (pages code1) j"
    by (elim conjE)
  have "vpi_index code1 a \<noteq> 2" if "a mod PGSIZE = 0 \<and> PGROUNDUP 0x10000 \<le> a \<and> a < 0x10000 + 0x2000" for a
  proof -
    from that have "a = 0x10000 \<or> a = 0x11000"
      by (intro two_page_range) (simp_all add: PGROUNDUP_def PGSIZE_def)
    then show ?thesis
      by (auto simp: vpi_index_def va2vpi_idx_def code1_def PAGE_SHIFT_def)
  qed
  with fr have "vpi_at params0 (pages vr') 2 = vpi_at params0 (pages code1) 2" by blast
  also have "\<dots> = zero_vpi"
    by (simp add: vpi_at_def code1_def params0_def zero_vpi_page_def)
  finally have f2: "vpi_at params0 (pages vr') 2 = zero_vpi" .
  from r sz p1 f2 show ?thesis by (auto simp: kmem_of_def)
qed

text \<open>
  C3 at its failing input. The claim: after a successful call with \<open>sz > 0\<close> every
  page-aligned address in \<open>[roundUp(from_va), from_va + sz)\<close> is mapped and the call returns
  \<open>sz\<close>. \<open>vregionaddmap\<close> adds \<open>sz + from_va\<close> in 64 bits and does not test for overflow
  (its caller \<open>vspaceloadcode\<close> makes that test for the loader's calls). With
  \<open>from_va = 0xFFFFFFFF00000000\<close>, below the kernel base, and \<open>sz = 2^32\<close> the sum wraps
  to 0: the boundary test passes, the loop maps nothing, and \<open>return sz\<close> delivers the
  \<open>int\<close> 0. The call succeeds with the region and the allocator as they were.
\<close>

theorem vregionaddmap_wrapped_range:
  "vregionaddmap params0 region0 0xFFFFFFFF00000000 0x100000000 1 1 (kmem_of [5, 6])
     = Some (Inr (0, region0, kmem_of [5, 6]))"
  by (simp add: vregionaddmap_def params0_def PGROUNDUP_def PGSIZE_def addmap_loop.simps)

section \<open>Loading the two-segment image (C5)\<close>

lemma loadcode_scenario_run:
  "\<exists>vs' st'. vspaceloadcode params0 (\<lambda>_. Some image0) vspace0 ''prog'' 0 (kmem_of [1, 2, 3, 4])
       = Some (Inr (0x50, 0x10000, vs', st'))
     \<and> length (regions vs') = 3
     \<and> va_base (regions vs' ! VR_CODE) = 0x10000 \<and> size_vr (regions vs' ! VR_CODE) = 0x1050
     \<and> va_base (regions vs' ! VR_HEAP) = 0x13000 \<and> size_vr (regions vs' ! VR_HEAP) = 0"
  by (simp add: vspaceloadcode_def image0_def segA_def segB_def ELF_MAGIC_def ELF_PROG_LOAD_def
      vregionaddmap_def params0_def zero_vregion_def kmem_of_def VR_CODE_def VR_HEAP_def
      VR_USTACK_def ELF_PROG_FLAG_WRITE_def VPI_PRESENT_def VPI_WRITABLE_def VPI_READONLY_def
      PGROUNDUP_def PGROUNDDOWN_def PGSIZE_def vrloaddata_def loadcode_loop.simps
      addmap_loop.simps addmap_failure.simps va2vpage_info_def kalloc_def kfree_def
      va2vpi_idx_def PAGE_SHIFT_def vpi_load_def vpi_store_def zero_vpi_page_def zero_vpi_def
      memset_page_def vrloaddata_loop.simps readi_def memmove_to_def word_sless_alt Let_def
      vspace0_def vspaceinit_def vpi_walk.simps)

text \<open>
  C5, as the code has it. Loading the two-segment image (segment A at \<open>0x10000\<close>, file
  size \<open>0x100\<close>, memory size \<open>0x1000\<close>, read-only; segment B at \<open>0x11000\<close>, file and memory
  size \<open>0x50\<close>, writable) into a fresh address space, with four free pages, succeeds:
  \<open>vspaceloadcode\<close> returns \<open>0x50\<close> (the bytes requested for the last segment) and the
  entry point, the code region has base \<open>0x10000\<close> and size \<open>0x1050\<close>, and the heap region
  has size 0 and base \<open>0x13000\<close>, which is \<open>PGROUNDUP(0x11050) + PGSIZE\<close>: the page-rounded
  end of segment B, \<open>0x12000\<close>, plus one guard page.
\<close>

theorem vspaceloadcode_two_segments:
  "\<exists>vs' st'. vspaceloadcode params0 (\<lambda>_. Some image0) vspace0 ''prog'' 0 (kmem_of [1, 2, 3, 4])
       = Some (Inr (0x50, 0x10000, vs', st'))
     \<and> va_base (regions vs' ! VR_CODE) = 0x10000 \<and> size_vr (regions vs' ! VR_CODE) = 0x1050
     \<and> va_base (regions vs' ! VR_HEAP) = 0x13000 \<and> size_vr (regions vs' ! VR_HEAP) = 0"
proof -
  from loadcode_scenario_run obtain vs' st' where
    "vspaceloadcode params0 (\<lambda>_. Some image0) vspace0 ''prog'' 0 (kmem_of [1, 2, 3, 4])
       = Some (Inr (0x50, 0x10000, vs', st'))"
    "va_base (regions vs' ! VR_CODE) = 0x10000" "size_vr (regions vs' ! VR_CODE) = 0x1050"
    "va_base (regions vs' ! VR_HEAP) = 0x13000" "size_vr (regions vs' ! VR_HEAP) = 0"
    by (elim exE conjE)
  then show ?thesis by (intro exI conjI)
qed

text \<open>The heap base after this load is not \<open>0x12000\<close>.\<close>

theorem vspaceloadcode_heap_base_counterexample:
  "\<exists>vs' st'. vspaceloadcode params0 (\<lambda>_. Some image0) vspace0 ''prog'' 0 (kmem_of [1, 2, 3, 4])
       = Some (Inr (0x50, 0x10000, vs', st'))
     \<and> va_base (regions vs' ! VR_HEAP) \<noteq> 0x12000"
proof -
  from loadcode_scenario_run obtain vs' st' where
    r: "vspaceloadcode params0 (\<lambda>_. Some image0) vspace0 ''prog'' 0 (kmem_of [1, 2, 3, 4])
       = Some (Inr (0x50, 0x10000, vs', st'))"
    and h: "va_base (regions vs' ! VR_HEAP) = 0x13000"
    by (elim exE conjE)
  from h have "va_base (regions vs' ! VR_HEAP) \<noteq> 0x12000" by simp
  with r show ?thesis by (intro exI conjI)
qed

section \<open>Mapping over an already mapped page (C8)\<close>

















section \<open>Writing across a page boundary (C10)\<close>

text \<open>
  At a page-aligned address \<open>PGROUNDUP(va) - va\<close> is 0, so \<open>wsz\<close> is 0 for every positive
  \<open>sz\<close>: when the page at \<open>va\<close> is mapped and writable the iteration copies nothing and
  leaves \<open>va\<close>, \<open>data\<close>, \<open>sz\<close> and the memory as they were, and the loop does not return.
\<close>

lemma PGROUNDUP_id:
  assumes "a mod PGSIZE = 0"
  shows "PGROUNDUP a = a"
proof -
  have m: "(PGSIZE - 1 :: u64) = mask 12" by (simp add: PGSIZE_def mask_eq_exp_minus_1)
  have t: "take_bit 12 a = 0" using assms by (simp add: PGSIZE_def take_bit_eq_mod)
  have nb: "\<not> bit a n" if "n < 12" for n
  proof -
    have "bit (take_bit 12 a) n = bit a n" using that by (simp add: bit_take_bit_iff)
    then show ?thesis using t by simp
  qed
  have "a + mask 12 = a OR mask 12"
    by (rule disjunctive_add) (auto simp: bit_mask_iff nb)
  moreover have "(a OR mask 12) AND NOT (mask 12) = a"
    by (rule bit_eqI) (auto simp: bit_simps nb)
  ultimately show ?thesis unfolding PGROUNDUP_def
    by (simp add: m add_diff_eq[symmetric])
qed

lemma writetova_wsz_aligned:
  assumes "va mod PGSIZE = 0" "0 <s sz"
  shows "writetova_wsz va sz = 0"
  using assms by (simp add: writetova_wsz_def PGROUNDUP_id)

lemma memmove_to_nothing: "memmove_to p k0 data 0 st = st"
proof -
  have "(\<lambda>k. if k0 \<le> k \<and> k < k0 then data (k - k0) else mem st p k) = mem st p"
    by (rule ext) auto
  then show ?thesis by (simp add: memmove_to_def)
qed

lemma writetova_loop_spin_aux:
  assumes "writetova_loop c va vtop data sz vs st = Some y"
  shows "\<not> (va < vtop \<and> va mod PGSIZE = 0 \<and> 0 <s sz
          \<and> (\<exists>n. va2vregion vs va = Some n
                \<and> used (vpi_at c (pages (regions vs ! n)) (vpi_index (regions vs ! n) va)) \<noteq> 0
                \<and> writable (vpi_at c (pages (regions vs ! n)) (vpi_index (regions vs ! n) va)) \<noteq> 0))"
proof (rule writetova_loop.raw_induct[OF _ assms])
  fix f c va vtop data sz vs st y
  assume ih: "\<And>c va vtop data sz vs st y. f c va vtop data sz vs st = Some y \<Longrightarrow>
      \<not> (va < vtop \<and> va mod PGSIZE = 0 \<and> 0 <s sz
          \<and> (\<exists>n. va2vregion vs va = Some n
                \<and> used (vpi_at c (pages (regions vs ! n)) (vpi_index (regions vs ! n) va)) \<noteq> 0
                \<and> writable (vpi_at c (pages (regions vs ! n)) (vpi_index (regions vs ! n) va)) \<noteq> 0))"
    and body: "(if va < vtop then
        (case va2vregion vs va of
           None \<Rightarrow> Some (Inr (- 1, vs, st))
         | Some n \<Rightarrow>
             (case va2vpage_info c (regions vs ! n) va st of
                Inl f \<Rightarrow> Some (Inl f)
              | Inr (None, vr1, st1) \<Rightarrow> Some (Inl NullDeref)
              | Inr (Some p, vr1, st1) \<Rightarrow>
                  (case vpi_load c (pages vr1) p of
                     Inl f \<Rightarrow> Some (Inl f)
                   | Inr vpi \<Rightarrow>
                       if used vpi = 0 then Some (Inl AssertFail)
                       else if writable vpi = 0
                       then Some (Inr (- 1, vs\<lparr>regions := (regions vs)[n := vr1]\<rparr>, st1))
                       else
                         f c (va + writetova_wsz va sz) vtop
                           (\<lambda>k. data (k + unat (writetova_wsz va sz)))
                           (sz - ucast (writetova_wsz va sz))
                           (vs\<lparr>regions := (regions vs)[n := vr1]\<rparr>)
                           (memmove_to (ppn vpi) (unat (va mod PGSIZE)) data
                              (unat (writetova_wsz va sz)) st1))))
      else Some (Inr (0, vs, st))) = Some y"
  show "\<not> (va < vtop \<and> va mod PGSIZE = 0 \<and> 0 <s sz
          \<and> (\<exists>n. va2vregion vs va = Some n
                \<and> used (vpi_at c (pages (regions vs ! n)) (vpi_index (regions vs ! n) va)) \<noteq> 0
                \<and> writable (vpi_at c (pages (regions vs ! n)) (vpi_index (regions vs ! n) va)) \<noteq> 0))"
  proof
    assume a: "va < vtop \<and> va mod PGSIZE = 0 \<and> 0 <s sz
          \<and> (\<exists>n. va2vregion vs va = Some n
                \<and> used (vpi_at c (pages (regions vs ! n)) (vpi_index (regions vs ! n) va)) \<noteq> 0
                \<and> writable (vpi_at c (pages (regions vs ! n)) (vpi_index (regions vs ! n) va)) \<noteq> 0)"
    then obtain n where n: "va2vregion vs va = Some n"
      "used (vpi_at c (pages (regions vs ! n)) (vpi_index (regions vs ! n) va)) \<noteq> 0"
      "writable (vpi_at c (pages (regions vs ! n)) (vpi_index (regions vs ! n) va)) \<noteq> 0"
      by (elim conjE exE)
    from a have lt: "va < vtop" and al: "va mod PGSIZE = 0" and pos: "0 <s sz" by simp_all
    from va2vpage_info_present[OF used_nonzero[OF n(2)], of st] obtain p where
      p: "va2vpage_info c (regions vs ! n) va st = Inr (Some p, regions vs ! n, st)"
         "vpi_load c (pages (regions vs ! n)) p
            = Inr (vpi_at c (pages (regions vs ! n)) (vpi_index (regions vs ! n) va))"
      by blast
    have w: "writetova_wsz va sz = 0" using al pos by (rule writetova_wsz_aligned)
    have "f c va vtop data sz vs st = Some y"
      using body lt n p by (simp add: w memmove_to_nothing)
    from ih[OF this] a show False by simp
  qed
qed

lemma writetova_loop_spin:
  assumes "va < vtop" "va mod PGSIZE = 0" "0 <s sz" "va2vregion vs va = Some n"
    "used (vpi_at c (pages (regions vs ! n)) (vpi_index (regions vs ! n) va)) \<noteq> 0"
    "writable (vpi_at c (pages (regions vs ! n)) (vpi_index (regions vs ! n) va)) \<noteq> 0"
  shows "writetova_loop c va vtop data sz vs st = None"
proof (cases "writetova_loop c va vtop data sz vs st")
  case None then show ?thesis .
next
  case (Some y)
  from writetova_loop_spin_aux[OF Some] assms show ?thesis by blast
qed

text \<open>The address space \<open>vspace3\<close>: page \<open>0x11000\<close> of its code region is mapped and writable.\<close>

lemma vspace3_facts:
  "va2vregion vspace3 0x11000 = Some 0"
  "regions vspace3 ! 0 = code3"
  "used (vpi_at params0 (pages code3) (vpi_index code3 0x11000)) = 1"
  "writable (vpi_at params0 (pages code3) (vpi_index code3 0x11000)) = 1"
  "va2vregion vspace3 0x12000 = None"
  "(0x11000 :: u64) mod PGSIZE = 0"
  by (simp_all add: vspace3_def va2vregion_def code3_def region0_def stack0_def params0_def
      vpi_at_def vpi_index_def va2vpi_idx_def PAGE_SHIFT_def zero_vpi_def PGSIZE_def)

text \<open>
  C10 at its failing inputs. The claim: the call copies page by page, returns -1 as soon
  as it reaches an address outside every region or a page that is not writable, and
  returns 0 only when every byte of \<open>[va, va + sz)\<close> landed in a mapped, writable page.
  \<^item> The address space \<open>vspace3\<close> maps the writable page \<open>0x11000\<close>, and \<open>0x12000\<close> lies
    outside every region. A write of \<open>0x1001\<close> bytes at the page-aligned address
    \<open>0x11000\<close> computes \<open>wsz = min((int)(PGROUNDUP(va) - va), sz) = 0\<close>, copies nothing
    and repeats at the same address: the call never returns, where the claim has it
    fill the page and return -1 at \<open>0x12000\<close>.
  \<^item> A write of 2 bytes at \<open>2^64 - 1\<close>, an address in no region: the sum \<open>va + sz\<close> wraps
    to 1, the test against \<open>KERNBASE\<close> passes, \<open>va < end\<close> is false at once, and the call
    returns 0 with no byte copied.
\<close>

theorem vspacewritetova_spin_and_wrap:
  "vspacewritetova params0 vspace3 0x11000 (\<lambda>_. 0x41) 0x1001 (kmem_of []) = None
   \<and> va2vregion vspace3 0x11000 = Some 0
   \<and> writable (vpi_at params0 (pages (regions vspace3 ! 0)) (vpi_index (regions vspace3 ! 0) 0x11000)) = 1
   \<and> va2vregion vspace3 0x12000 = None
   \<and> vspacewritetova params0 vspace3 0xFFFFFFFFFFFFFFFF (\<lambda>_. 0x41) 2 (kmem_of [])
       = Some (Inr (0, vspace3, kmem_of []))
   \<and> va2vregion vspace3 0xFFFFFFFFFFFFFFFF = None"
proof -
  have "writetova_loop params0 0x11000 0x12001 (\<lambda>_. 0x41) 0x1001 vspace3 (kmem_of []) = None"
    by (rule writetova_loop_spin[where n = 0])
       (simp_all add: vspace3_facts word_sless_alt)
  then have "vspacewritetova params0 vspace3 0x11000 (\<lambda>_. 0x41) 0x1001 (kmem_of []) = None"
    by (simp add: vspacewritetova_def params0_def word_sless_alt)
  moreover have "vspacewritetova params0 vspace3 0xFFFFFFFFFFFFFFFF (\<lambda>_. 0x41) 2 (kmem_of [])
       = Some (Inr (0, vspace3, kmem_of []))"
    by (simp add: vspacewritetova_def params0_def word_sless_alt writetova_loop.simps)
  moreover have "va2vregion vspace3 0xFFFFFFFFFFFFFFFF = None"
    by (simp add: vspace3_def va2vregion_def code3_def region0_def stack0_def)
  ultimately show ?thesis by (simp add: vspace3_facts)
qed

section \<open>The hardware table after vspaceupdate (C1)\<close>



















section \<open>Duplicating an address space (C6)\<close>






















end
